theory Spec2Isabelle
  imports Complex_Main
begin

section \<open>Python values and strings\<close>

text \<open>
  The retrieval and ranking core of CogniHub is Python. Its strings are modelled as
  \<^typ>\<open>string\<close> (one \<^typ>\<open>char\<close> per code point, code points below 256), its
  unbounded integers as \<^typ>\<open>int\<close>, and the values that \<^verbatim>\<open>json.loads\<close> produces
  (typed \<^verbatim>\<open>Any\<close> in the source) as the datatype \<open>json\<close>. Python's \<^verbatim>\<open>None\<close>
  is \<open>JNull\<close>. A dict keeps its insertion order, so an object is an association
  list whose keys are distinct. A JSON number with a fraction or an exponent is a Python
  float; it is kept as the decimal it was written as, \<open>JFloat m e\<close> standing for
  \<open>m * 10 ^ e\<close> (rounding to binary64 is not modelled).
\<close>

datatype json =
    JNull
  | JBool bool
  | JInt int
  | JFloat int int
  | JNaN
  | JInf bool
  | JStr string
  | JArr "json list"
  | JObj "(string \<times> json) list"

text \<open>
  The exceptions the code can meet, as values: a fallible step returns
  \<open>Inl\<close> of the exception it raises or \<open>Inr\<close> of its result. \<open>JSONDecodeError\<close>
  is the decoder's own syntax error; the \<open>ValueError\<close> below is a plain
  \<^verbatim>\<open>ValueError\<close> that is no \<^verbatim>\<open>JSONDecodeError\<close>.
\<close>

datatype py_error =
    TransportError
  | HTTPStatusError
  | JSONDecodeError
  | AttributeError
  | TypeError
  | ValueError
  | OverflowError
  | IndexError
  | RecursionError

text \<open>\<^verbatim>\<open>d[k] = v\<close> on an insertion-ordered dict.\<close>

fun dict_set :: "('k \<times> 'v) list \<Rightarrow> 'k \<Rightarrow> 'v \<Rightarrow> ('k \<times> 'v) list" where
  "dict_set [] k v = [(k, v)]"
| "dict_set ((k', v') # kvs) k v =
     (if k' = k then (k, v) # kvs else (k', v') # dict_set kvs k v)"

text \<open>\<^verbatim>\<open>d.get(k)\<close>: the value, or \<^verbatim>\<open>None\<close> when the key is absent.\<close>

definition dict_get :: "(string \<times> json) list \<Rightarrow> string \<Rightarrow> json" where
  "dict_get d k = (case map_of d k of None \<Rightarrow> JNull | Some v \<Rightarrow> v)"

text \<open>The characters \<^verbatim>\<open>str.isspace\<close> accepts below code point 256.\<close>

definition py_isspace :: "char \<Rightarrow> bool" where
  "py_isspace c =
     ((of_char c :: nat) \<in> set [9, 10, 11, 12, 13, 28, 29, 30, 31, 32, 133, 160])"

definition lstrip :: "string \<Rightarrow> string" where
  "lstrip s = dropWhile py_isspace s"

definition rstrip :: "string \<Rightarrow> string" where
  "rstrip s = rev (dropWhile py_isspace (rev s))"

definition strip :: "string \<Rightarrow> string" where
  "strip s = rstrip (lstrip s)"

text \<open>\<^verbatim>\<open>s.find(c)\<close> and \<^verbatim>\<open>s.rfind(c)\<close> for a one-character needle; \<open>-1\<close> when absent.\<close>

fun find_from :: "char \<Rightarrow> string \<Rightarrow> nat \<Rightarrow> int" where
  "find_from c [] n = -1"
| "find_from c (x # xs) n = (if x = c then int n else find_from c xs (Suc n))"

definition find_char :: "string \<Rightarrow> char \<Rightarrow> int" where
  "find_char s c = find_from c s 0"

definition rfind_char :: "string \<Rightarrow> char \<Rightarrow> int" where
  "rfind_char s c =
     (let k = find_from c (rev s) 0 in if k < 0 then -1 else int (length s) - 1 - k)"

section \<open>A model of \<^verbatim>\<open>json.loads\<close>\<close>

text \<open>
  The extractors hand a substring to the standard library's \<^verbatim>\<open>json.loads\<close>. The
  extractors below take the parser as a parameter \<open>loads\<close>, so that what is proved of
  them holds of any parser. The parser returns the decoded value or raises:
  \<^verbatim>\<open>JSONDecodeError\<close> on a syntax error, and also exceptions of other classes, a
  plain \<^verbatim>\<open>ValueError\<close> on an integer literal of more than 4300 digits and
  \<^verbatim>\<open>RecursionError\<close> on a document nested deeper than the interpreter allows.

  For the concrete inputs a recursive-descent model of the decoder is given: the JSON
  grammar with Python's extensions \<^verbatim>\<open>NaN\<close>, \<^verbatim>\<open>Infinity\<close> and \<^verbatim>\<open>-Infinity\<close>, strict
  strings (no raw control characters), a \<^verbatim>\<open>\uXXXX\<close> escape only below code point 256,
  and the limit on the digits of an integer literal. The recursion is bounded by fuel;
  \<open>OutOfFuel\<close> is kept apart from \<open>Bad\<close> (a syntax error) and from \<open>Raised\<close> (an
  exception of another class), so that a reported syntax error is never an exhausted
  bound. The interpreter's own recursion limit depends on the depth of the call stack
  at the call and is not part of this decoder; the documents decoded below nest at most
  three deep.
\<close>

datatype 'a parsed = OutOfFuel | Bad | Raised py_error | Ok 'a string

text \<open>
  \<^verbatim>\<open>sys.int_info.default_max_str_digits\<close>: converting a decimal string of more digits
  to an integer raises \<^verbatim>\<open>ValueError\<close>.
\<close>

definition max_str_digits :: nat where
  "max_str_digits = 4300"

definition json_ws :: "char \<Rightarrow> bool" where
  "json_ws c = (c = CHR 0x20 \<or> c = CHR 0x09 \<or> c = CHR 0x0A \<or> c = CHR 0x0D)"

definition skip_ws :: "string \<Rightarrow> string" where
  "skip_ws s = dropWhile json_ws s"

definition is_digit :: "char \<Rightarrow> bool" where
  "is_digit c = (48 \<le> (of_char c :: nat) \<and> (of_char c :: nat) \<le> 57)"

definition digit_val :: "char \<Rightarrow> int" where
  "digit_val c = int (of_char c :: nat) - 48"

definition digits_val :: "string \<Rightarrow> int" where
  "digits_val ds = foldl (\<lambda>a c. 10 * a + digit_val c) 0 ds"

definition hex_val :: "char \<Rightarrow> nat option" where
  "hex_val c =
     (let n = (of_char c :: nat)
      in if 48 \<le> n \<and> n \<le> 57 then Some (n - 48)
         else if 97 \<le> n \<and> n \<le> 102 then Some (n - 87)
         else if 65 \<le> n \<and> n \<le> 70 then Some (n - 55)
         else None)"

text \<open>The body of a string literal, after its opening quote.\<close>

fun parse_string :: "string \<Rightarrow> string \<Rightarrow> (string \<times> string) option" where
  "parse_string acc [] = None"
| "parse_string acc (c # cs) =
     (if c = CHR 0x22 then Some (rev acc, cs)
      else if c = CHR 0x5C then
        (case cs of
           [] \<Rightarrow> None
         | e # r \<Rightarrow>
             if e = CHR 0x22 \<or> e = CHR 0x5C \<or> e = CHR ''/'' then parse_string (e # acc) r
             else if e = CHR ''b'' then parse_string (CHR 0x08 # acc) r
             else if e = CHR ''f'' then parse_string (CHR 0x0C # acc) r
             else if e = CHR ''n'' then parse_string (CHR 0x0A # acc) r
             else if e = CHR ''r'' then parse_string (CHR 0x0D # acc) r
             else if e = CHR ''t'' then parse_string (CHR 0x09 # acc) r
             else if e = CHR ''u'' then
               (case r of
                  h1 # h2 # h3 # h4 # r' \<Rightarrow>
                    (case (hex_val h1, hex_val h2, hex_val h3, hex_val h4) of
                       (Some a, Some b, Some c', Some d) \<Rightarrow>
                         if a = 0 \<and> b = 0 then parse_string (char_of (16 * c' + d) # acc) r'
                         else None
                     | _ \<Rightarrow> None)
                | _ \<Rightarrow> None)
             else None)
      else if (of_char c :: nat) < 32 then None
      else parse_string (c # acc) cs)"

text \<open>
  A number, after the decoder's pattern
  \<^verbatim>\<open>(-?(?:0|[1-9]\d*))(\.\d+)?([eE][-+]?\d+)?\<close>: the longest match is taken and the
  rest of the text is left for the caller. A match with a fraction or an exponent is
  converted by \<^verbatim>\<open>float\<close>, a match without by \<^verbatim>\<open>int\<close>, which raises on more than
  \<open>max_str_digits\<close> digits. \<open>Bad\<close> is no match.
\<close>

definition parse_frac :: "string \<Rightarrow> (string \<times> string) option" where
  "parse_frac s =
     (case s of
        c # r \<Rightarrow>
          if c = CHR ''.'' \<and> takeWhile is_digit r \<noteq> []
          then Some (takeWhile is_digit r, dropWhile is_digit r) else None
      | [] \<Rightarrow> None)"

definition parse_exp :: "string \<Rightarrow> (int \<times> string) option" where
  "parse_exp s =
     (case s of
        c # r \<Rightarrow>
          if c = CHR ''e'' \<or> c = CHR ''E'' then
            (let (neg, r1) =
                   (case r of
                      sg # r' \<Rightarrow>
                        if sg = CHR ''-'' then (True, r')
                        else if sg = CHR ''+'' then (False, r') else (False, r)
                    | [] \<Rightarrow> (False, r));
                 ds = takeWhile is_digit r1
             in if ds = [] then None
                else Some ((if neg then - digits_val ds else digits_val ds),
                           dropWhile is_digit r1))
          else None
      | [] \<Rightarrow> None)"

definition parse_number :: "string \<Rightarrow> json parsed" where
  "parse_number s =
     (let (neg, s1) = (case s of c # r \<Rightarrow> if c = CHR ''-'' then (True, r) else (False, s)
                                | [] \<Rightarrow> (False, s));
          ds = (case s1 of
                  c # r \<Rightarrow> if c = CHR ''0'' then [c]
                           else if is_digit c then takeWhile is_digit s1 else []
                | [] \<Rightarrow> []);
          s2 = drop (length ds) s1;
          sgn = (\<lambda>v. if neg then - v else v)
      in if ds = [] then Bad
         else
           (case parse_frac s2 of
              Some (fs, s3) \<Rightarrow>
                (case parse_exp s3 of
                   Some (e, s4) \<Rightarrow>
                     Ok (JFloat (sgn (digits_val (ds @ fs))) (e - int (length fs))) s4
                 | None \<Rightarrow>
                     Ok (JFloat (sgn (digits_val (ds @ fs))) (- int (length fs))) s3)
            | None \<Rightarrow>
                (case parse_exp s2 of
                   Some (e, s4) \<Rightarrow> Ok (JFloat (sgn (digits_val ds)) e) s4
                 | None \<Rightarrow>
                     if length ds > max_str_digits then Raised ValueError
                     else Ok (JInt (sgn (digits_val ds))) s2)))"

definition strip_prefix :: "string \<Rightarrow> string \<Rightarrow> string option" where
  "strip_prefix p s = (if take (length p) s = p then Some (drop (length p) s) else None)"

text \<open>A constant of the grammar: the value when the text starts with its spelling.\<close>

definition literal :: "json \<Rightarrow> string \<Rightarrow> string \<Rightarrow> json parsed" where
  "literal v p s = (case strip_prefix p s of None \<Rightarrow> Bad | Some r \<Rightarrow> Ok v r)"

text \<open>A value that is neither an array nor an object.\<close>

definition parse_scalar :: "string \<Rightarrow> json parsed" where
  "parse_scalar s =
     (case s of
        [] \<Rightarrow> Bad
      | c # r \<Rightarrow>
          if c = CHR 0x22 then
            (case parse_string [] r of None \<Rightarrow> Bad | Some (t, r') \<Rightarrow> Ok (JStr t) r')
          else if c = CHR ''n'' then literal JNull ''null'' s
          else if c = CHR ''t'' then literal (JBool True) ''true'' s
          else if c = CHR ''f'' then literal (JBool False) ''false'' s
          else if c = CHR ''N'' then literal JNaN ''NaN'' s
          else if c = CHR ''I'' then literal (JInf True) ''Infinity'' s
          else
            (case parse_number s of
               Bad \<Rightarrow> literal (JInf False) ''-Infinity'' s
             | p \<Rightarrow> p))"

fun parse_value :: "nat \<Rightarrow> string \<Rightarrow> json parsed"
  and parse_items :: "nat \<Rightarrow> json list \<Rightarrow> string \<Rightarrow> json parsed"
  and parse_members :: "nat \<Rightarrow> (string \<times> json) list \<Rightarrow> string \<Rightarrow> json parsed"
where
  "parse_value 0 s = OutOfFuel"
| "parse_value (Suc n) s =
     (case s of
        [] \<Rightarrow> Bad
      | c # r \<Rightarrow>
          if c = CHR ''['' then
            (case skip_ws r of
               [] \<Rightarrow> Bad
             | c' # r' \<Rightarrow> if c' = CHR '']'' then Ok (JArr []) r' else parse_items n [] (c' # r'))
          else if c = CHR ''{'' then
            (case skip_ws r of
               [] \<Rightarrow> Bad
             | c' # r' \<Rightarrow> if c' = CHR ''}'' then Ok (JObj []) r' else parse_members n [] (c' # r'))
          else parse_scalar s)"
| "parse_items 0 acc s = OutOfFuel"
| "parse_items (Suc n) acc s =
     (case parse_value n s of
        OutOfFuel \<Rightarrow> OutOfFuel
      | Bad \<Rightarrow> Bad
      | Raised e \<Rightarrow> Raised e
      | Ok v r \<Rightarrow>
          (case skip_ws r of
             [] \<Rightarrow> Bad
           | c # r' \<Rightarrow>
               if c = CHR '','' then parse_items n (acc @ [v]) (skip_ws r')
               else if c = CHR '']'' then Ok (JArr (acc @ [v])) r'
               else Bad))"
| "parse_members 0 acc s = OutOfFuel"
| "parse_members (Suc n) acc s =
     (case s of
        [] \<Rightarrow> Bad
      | q # r0 \<Rightarrow>
          if q \<noteq> CHR 0x22 then Bad
          else
            (case parse_string [] r0 of
               None \<Rightarrow> Bad
             | Some (k, r1) \<Rightarrow>
                 (case skip_ws r1 of
                    [] \<Rightarrow> Bad
                  | c # r2 \<Rightarrow>
                      if c \<noteq> CHR '':'' then Bad
                      else
                        (case parse_value n (skip_ws r2) of
                           OutOfFuel \<Rightarrow> OutOfFuel
                         | Bad \<Rightarrow> Bad
                         | Raised e \<Rightarrow> Raised e
                         | Ok v r3 \<Rightarrow>
                             (case skip_ws r3 of
                                [] \<Rightarrow> Bad
                              | d # r4 \<Rightarrow>
                                  if d = CHR '','' then parse_members n (dict_set acc k v) (skip_ws r4)
                                  else if d = CHR ''}'' then Ok (JObj (dict_set acc k v)) r4
                                  else Bad)))))"

definition json_parse :: "string \<Rightarrow> json parsed" where
  "json_parse s =
     (case parse_value (2 * length s + 2) (skip_ws s) of
        Ok v r \<Rightarrow> if skip_ws r = [] then Ok v [] else Bad
      | Bad \<Rightarrow> Bad
      | Raised e \<Rightarrow> Raised e
      | OutOfFuel \<Rightarrow> OutOfFuel)"

text \<open>
  \<^verbatim>\<open>json.loads\<close>: the value, or the exception raised. An exhausted bound is reported
  as \<open>RecursionError\<close>, never as a value or a syntax error.
\<close>

definition json_loads :: "string \<Rightarrow> py_error + json" where
  "json_loads s =
     (case json_parse s of
        Ok v r \<Rightarrow> Inr v
      | Bad \<Rightarrow> Inl JSONDecodeError
      | Raised e \<Rightarrow> Inl e
      | OutOfFuel \<Rightarrow> Inl RecursionError)"

section \<open>ResponseJSONExtractor\<close>

subsection \<open>The object extractor of \<^verbatim>\<open>rag_routing.py\<close>\<close>

text \<open>
  The inner loop of \<^verbatim>\<open>_json_obj_from_text\<close>, over the characters from the first
  opening brace on. The state is the loop's: \<open>depth\<close>, \<open>in_string\<close>, \<open>escape_next\<close>,
  and the number \<open>n\<close> of characters already read. It returns the length of the snippet
  \<^verbatim>\<open>s[i : j + 1]\<close> when the depth comes back to zero, \<open>None\<close> when the characters
  run out first.
\<close>

fun scan_braces :: "int \<Rightarrow> bool \<Rightarrow> bool \<Rightarrow> nat \<Rightarrow> string \<Rightarrow> nat option" where
  "scan_braces depth in_string escape_next n [] = None"
| "scan_braces depth in_string escape_next n (c # cs) =
     (if escape_next then scan_braces depth in_string False (Suc n) cs
      else if c = CHR 0x5C then scan_braces depth in_string True (Suc n) cs
      else if c = CHR 0x22 then scan_braces depth (\<not> in_string) False (Suc n) cs
      else if in_string then scan_braces depth in_string False (Suc n) cs
      else if c = CHR ''{'' then scan_braces (depth + 1) in_string False (Suc n) cs
      else if c = CHR ''}'' then
        (if depth - 1 = 0 then Some (Suc n)
         else scan_braces (depth - 1) in_string False (Suc n) cs)
      else scan_braces depth in_string False (Suc n) cs)"

text \<open>
  \<^verbatim>\<open>_json_obj_from_text(text, max_size=...)\<close>. The outer loop skips to the first
  \<^verbatim>\<open>{\<close> and returns whatever the scan from there gives; it never reaches a second one.
  \<open>max_size\<close> is \<^verbatim>\<open>config.config.max_json_parse_size\<close>. The \<^verbatim>\<open>try\<close> around
  \<^verbatim>\<open>json.loads\<close> has the single handler \<^verbatim>\<open>except json.JSONDecodeError\<close>: a syntax
  error gives \<^verbatim>\<open>None\<close>, an exception of any other class leaves the function.
\<close>

definition json_obj_from_text ::
  "(string \<Rightarrow> py_error + json) \<Rightarrow> string \<Rightarrow> int \<Rightarrow> py_error + json" where
  "json_obj_from_text loads s max_size =
     (if s = [] \<or> int (length s) > max_size then Inr JNull
      else
        let i = length (takeWhile (\<lambda>ch. ch \<noteq> CHR ''{'') s) in
        if i = length s then Inr JNull
        else
          let stop = nat (min (int (length s)) (int i + max_size)) in
          (case scan_braces 0 False False 0 (take (stop - i) (drop i s)) of
             None \<Rightarrow> Inr JNull
           | Some n \<Rightarrow>
               (case loads (take n (drop i s)) of
                  Inl e \<Rightarrow> if e = JSONDecodeError then Inr JNull else Inl e
                | Inr v \<Rightarrow> Inr v)))"

subsection \<open>The array extractor of \<^verbatim>\<open>rerank.py\<close>\<close>

text \<open>
  \<^verbatim>\<open>_extract_json_array(text)\<close>: the list, or \<open>None\<close>. Its handler is
  \<^verbatim>\<open>except Exception\<close>, so every exception of the parser gives \<open>None\<close>.
\<close>

definition extract_json_array ::
  "(string \<Rightarrow> py_error + json) \<Rightarrow> string \<Rightarrow> json list option" where
  "extract_json_array loads text =
     (let s = strip text in
      if s = [] then None
      else
        let start = find_char s (CHR ''['');
            end' = rfind_char s (CHR '']'') in
        if start < 0 \<or> end' < 0 \<or> end' \<le> start then None
        else
          let snippet = drop (nat start) (take (nat (end' + 1)) s) in
          (case loads snippet of
             Inl e \<Rightarrow> None
           | Inr val \<Rightarrow> (case val of JArr xs \<Rightarrow> Some xs | _ \<Rightarrow> None)))"

subsection \<open>The extraction, in the specification's words\<close>

text \<open>
  The specification's scan reads the text with a within-string flag toggled by
  unescaped double quotes and an escape-pending flag consumed by a backslash. Depth
  tracking begins at the first opening character that is not inside a string; the depth
  moves only outside strings, and the span ends where the depth first comes back to
  zero. The span is parsed; nothing is returned when there is no such span or it does
  not parse.
\<close>

fun lex_step :: "char \<Rightarrow> char \<Rightarrow> int \<times> bool \<times> bool \<Rightarrow> char \<Rightarrow> int \<times> bool \<times> bool" where
  "lex_step opn cls (depth, in_string, escape) c =
     (if escape then (depth, in_string, False)
      else if c = CHR 0x5C then (depth, in_string, True)
      else if c = CHR 0x22 then (depth, \<not> in_string, False)
      else if in_string then (depth, in_string, False)
      else if c = opn then (depth + 1, in_string, False)
      else if c = cls then (depth - 1, in_string, False)
      else (depth, in_string, False))"

definition depth_from :: "char \<Rightarrow> char \<Rightarrow> int \<times> bool \<times> bool \<Rightarrow> string \<Rightarrow> int" where
  "depth_from opn cls st p = fst (foldl (lex_step opn cls) st p)"

definition depth_after :: "char \<Rightarrow> char \<Rightarrow> string \<Rightarrow> int" where
  "depth_after opn cls p = depth_from opn cls (0, False, False) p"

text \<open>The shortest prefix of a text at whose end the depth is back to zero.\<close>

definition balanced_prefix :: "char \<Rightarrow> char \<Rightarrow> string \<Rightarrow> string option" where
  "balanced_prefix opn cls rest =
     map_option (\<lambda>n. take n rest)
       (find (\<lambda>n. depth_after opn cls (take n rest) = 0) [1..<Suc (length rest)])"

text \<open>The text from its first opening character outside a string on.\<close>

fun skip_to_open :: "char \<Rightarrow> bool \<Rightarrow> bool \<Rightarrow> string \<Rightarrow> string" where
  "skip_to_open opn in_string escape [] = []"
| "skip_to_open opn in_string escape (c # cs) =
     (if escape then skip_to_open opn in_string False cs
      else if c = CHR 0x5C then skip_to_open opn in_string True cs
      else if c = CHR 0x22 then skip_to_open opn (\<not> in_string) False cs
      else if \<not> in_string \<and> c = opn then c # cs
      else skip_to_open opn in_string False cs)"

definition first_balanced_span :: "char \<Rightarrow> char \<Rightarrow> string \<Rightarrow> string option" where
  "first_balanced_span opn cls s = balanced_prefix opn cls (skip_to_open opn False False s)"

definition spec_extract ::
  "(string \<Rightarrow> py_error + json) \<Rightarrow> char \<Rightarrow> char \<Rightarrow> string \<Rightarrow> json" where
  "spec_extract loads opn cls s =
     (case first_balanced_span opn cls s of
        None \<Rightarrow> JNull
      | Some sp \<Rightarrow> (case loads sp of Inl e \<Rightarrow> JNull | Inr v \<Rightarrow> v))"

text \<open>
  What the object extractor scans instead: the shortest balanced span that begins at
  the first opening character of the text, whether that character stands inside a
  quoted string or not.
\<close>

definition span_from_first_open :: "char \<Rightarrow> char \<Rightarrow> string \<Rightarrow> string option" where
  "span_from_first_open opn cls s = balanced_prefix opn cls (dropWhile (\<lambda>c. c \<noteq> opn) s)"

text \<open>What the array extractor hands to the parser: the text from its first \<^verbatim>\<open>[\<close> to its last \<^verbatim>\<open>]\<close>.\<close>

definition first_to_last :: "char \<Rightarrow> char \<Rightarrow> string \<Rightarrow> string" where
  "first_to_last opn cls s =
     dropWhile (\<lambda>c. c \<noteq> opn) (rev (dropWhile (\<lambda>c. c \<noteq> cls) (rev s)))"

section \<open>The LLM chat call\<close>

text \<open>
  Both LLM-assisted steps post one chat request and read
  \<^verbatim>\<open>((resp.json().get("message") or {}).get("content") or "").strip()\<close> inside a
  \<^verbatim>\<open>try\<close> block. What the server answers does not depend on this code, so the
  outcome of the request is an input of the model: the transport fails, or a response
  with a status code and a body arrives. Every exception the block can raise is a value;
  \<^verbatim>\<open>resp.json()\<close> decodes the body with \<open>loads\<close> and passes on whatever it raises.
\<close>

datatype http_outcome = RequestFailed | Response nat string

text \<open>Python's truth value of a decoded JSON value (\<^verbatim>\<open>x or y\<close>).\<close>

fun truthy :: "json \<Rightarrow> bool" where
  "truthy JNull = False"
| "truthy (JBool b) = b"
| "truthy (JInt i) = (i \<noteq> 0)"
| "truthy (JFloat m e) = (m \<noteq> 0)"
| "truthy JNaN = True"
| "truthy (JInf b) = True"
| "truthy (JStr s) = (s \<noteq> [])"
| "truthy (JArr xs) = (xs \<noteq> [])"
| "truthy (JObj kvs) = (kvs \<noteq> [])"

text \<open>\<^verbatim>\<open>x.get(key)\<close> on any value: only a dict has the method.\<close>

definition py_get :: "json \<Rightarrow> string \<Rightarrow> py_error + json" where
  "py_get x key = (case x of JObj d \<Rightarrow> Inr (dict_get d key) | _ \<Rightarrow> Inl AttributeError)"

text \<open>\<^verbatim>\<open>x.strip()\<close> on any value: only a string has the method.\<close>

definition py_strip :: "json \<Rightarrow> py_error + string" where
  "py_strip x = (case x of JStr s \<Rightarrow> Inr (strip s) | _ \<Rightarrow> Inl AttributeError)"

definition chat_content :: "(string \<Rightarrow> py_error + json) \<Rightarrow> string \<Rightarrow> py_error + string" where
  "chat_content loads body =
     (case loads body of
        Inl e \<Rightarrow> Inl e
      | Inr j \<Rightarrow>
          (case py_get j ''message'' of
             Inl e \<Rightarrow> Inl e
           | Inr msg \<Rightarrow>
               (case py_get (if truthy msg then msg else JObj []) ''content'' of
                  Inl e \<Rightarrow> Inl e
                | Inr c \<Rightarrow> py_strip (if truthy c then c else JStr []))))"

text \<open>
  The whole \<^verbatim>\<open>try\<close> block: \<^verbatim>\<open>http.post\<close>, \<^verbatim>\<open>raise_for_status\<close> (which raises on
  every status outside 200..299) and the content expression.
\<close>

definition llm_content ::
  "(string \<Rightarrow> py_error + json) \<Rightarrow> http_outcome \<Rightarrow> py_error + string" where
  "llm_content loads resp =
     (case resp of
        RequestFailed \<Rightarrow> Inl TransportError
      | Response status body \<Rightarrow>
          if 200 \<le> status \<and> status \<le> 299 then chat_content loads body
          else Inl HTTPStatusError)"

text \<open>
  The body of a well-formed chat response whose message content is the given text: the
  text as a JSON string literal (quotes, backslashes and control characters escaped)
  inside the \<^verbatim>\<open>{"message": {"content": ...}}\<close> shape of the LLM chat contract.
\<close>

definition hex_digit :: "nat \<Rightarrow> char" where
  "hex_digit n = (if n < 10 then char_of (48 + n) else char_of (87 + n))"

definition json_quote :: "string \<Rightarrow> string" where
  "json_quote s =
     [CHR 0x22] @
     concat (map (\<lambda>c. if c = CHR 0x22 \<or> c = CHR 0x5C then [CHR 0x5C, c]
                        else if (of_char c :: nat) < 32
                        then [CHR 0x5C, CHR ''u'', CHR ''0'', CHR ''0'',
                              hex_digit ((of_char c :: nat) div 16),
                              hex_digit ((of_char c :: nat) mod 16)]
                        else [c]) s)
     @ [CHR 0x22]"

definition chat_body :: "string \<Rightarrow> string" where
  "chat_body content = ''{\"message\": {\"role\": \"assistant\", \"content\": '' @ json_quote content @ ''}}''"

section \<open>Reranker\<close>

text \<open>
  \<^verbatim>\<open>int(x)\<close> on a decoded JSON value, as the reconciliation loop calls it inside
  \<^verbatim>\<open>try\<close>/\<^verbatim>\<open>except\<close>. A string goes through Python's integer syntax: surrounding
  whitespace, an optional sign, decimal digits with single underscores between them,
  at most \<open>max_str_digits\<close> digits. The whitespace \<^verbatim>\<open>int\<close> skips is not that of
  \<^verbatim>\<open>str.strip\<close>: it is the ASCII whitespace (tab, line feed, vertical tab, form
  feed, carriage return, space) and, below code point 256, the two non-ASCII spaces
  U+0085 and U+00A0, which the conversion first replaces by a space; the separators
  U+001C to U+001F are not skipped and make the string invalid. A float is truncated
  towards zero.
\<close>

definition int_space :: "char \<Rightarrow> bool" where
  "int_space c = ((of_char c :: nat) \<in> set [9, 10, 11, 12, 13, 32, 133, 160])"

fun valid_digits :: "string \<Rightarrow> bool" where
  "valid_digits [] = False"
| "valid_digits [c] = is_digit c"
| "valid_digits (c # d # r) =
     (is_digit c \<and> (if d = CHR ''_'' then valid_digits r else valid_digits (d # r)))"

definition int_of_str :: "string \<Rightarrow> py_error + int" where
  "int_of_str s =
     (let t = rev (dropWhile int_space (rev (dropWhile int_space s)));
          (neg, body) =
            (case t of
               c # r \<Rightarrow> if c = CHR ''-'' then (True, r)
                        else if c = CHR ''+'' then (False, r) else (False, t)
             | [] \<Rightarrow> (False, []));
          ds = filter (\<lambda>c. c \<noteq> CHR ''_'') body
      in if valid_digits body \<and> length ds \<le> max_str_digits
         then Inr (if neg then - digits_val ds else digits_val ds)
         else Inl ValueError)"

definition trunc_decimal :: "int \<Rightarrow> int \<Rightarrow> int" where
  "trunc_decimal m e =
     (if 0 \<le> e then m * 10 ^ nat e
      else if 0 \<le> m then m div 10 ^ nat (- e)
      else - ((- m) div 10 ^ nat (- e)))"

fun py_int :: "json \<Rightarrow> py_error + int" where
  "py_int JNull = Inl TypeError"
| "py_int (JBool b) = Inr (if b then 1 else 0)"
| "py_int (JInt i) = Inr i"
| "py_int (JFloat m e) = Inr (trunc_decimal m e)"
| "py_int JNaN = Inl ValueError"
| "py_int (JInf b) = Inl OverflowError"
| "py_int (JStr s) = int_of_str s"
| "py_int (JArr xs) = Inl TypeError"
| "py_int (JObj kvs) = Inl TypeError"

text \<open>
  \<^verbatim>\<open>by_id = {i: r for i, r in enumerate(candidates, start=1)}\<close> and \<^verbatim>\<open>by_id.get(i)\<close>.
\<close>

definition by_id :: "'r list \<Rightarrow> int \<rightharpoonup> 'r" where
  "by_id candidates = map_of (map (\<lambda>(i, r). (int i, r)) (enumerate 1 candidates))"

text \<open>
  The reconciliation loop \<^verbatim>\<open>for x in order\<close>, with its two accumulators \<open>picked\<close>
  and \<open>seen\<close>. An element that \<^verbatim>\<open>int\<close> rejects, a repeated id and an id that is no
  key of \<open>by_id\<close> are each skipped by \<^verbatim>\<open>continue\<close>.
\<close>

fun pick :: "'r list \<Rightarrow> json list \<Rightarrow> 'r list \<Rightarrow> int set \<Rightarrow> 'r list \<times> int set" where
  "pick candidates [] picked seen = (picked, seen)"
| "pick candidates (x # order) picked seen =
     (case py_int x of
        Inl e \<Rightarrow> pick candidates order picked seen
      | Inr i \<Rightarrow>
          if i \<in> seen then pick candidates order picked seen
          else
            (case by_id candidates i of
               None \<Rightarrow> pick candidates order picked seen
             | Some r \<Rightarrow> pick candidates order (picked @ [r]) (insert i seen)))"

text \<open>The closing loop: the candidates whose id was never seen, in their order.\<close>

definition unseen :: "'r list \<Rightarrow> int set \<Rightarrow> 'r list" where
  "unseen candidates seen =
     map snd (filter (\<lambda>(i, r). int i \<notin> seen) (enumerate 1 candidates))"

text \<open>
  \<^verbatim>\<open>rerank_results\<close>. The query, the model name, the URL and the timeout only shape
  the request; the candidates' fields are only read to build the prompt. The result is
  decided by the outcome of the request, the result list and \<open>keep_n\<close>.
\<close>

definition rerank_results ::
  "(string \<Rightarrow> py_error + json) \<Rightarrow> http_outcome \<Rightarrow> 'r list \<Rightarrow> int \<Rightarrow> 'r list" where
  "rerank_results loads resp results keep_n =
     (if results = [] then []
      else
        let keep_n = nat (max 1 (min keep_n (int (length results))));
            candidates = take keep_n results in
        (case llm_content loads resp of
           Inl e \<Rightarrow> results
         | Inr content \<Rightarrow>
             (case extract_json_array loads content of
                None \<Rightarrow> results
              | Some order \<Rightarrow>
                  if order = [] then results
                  else
                    (case pick candidates order [] {} of
                       (picked, seen) \<Rightarrow>
                         if picked = [] then results
                         else picked @ unseen candidates seen @ drop keep_n results))))"

subsection \<open>The reconciliation policy, in the specification's words\<close>

text \<open>
  The ids an array refers to, each id once at its first mention, and the valid range
  \<open>[1, keep_n]\<close> after clamping.
\<close>

definition ids_of :: "json list \<Rightarrow> int list" where
  "ids_of order = concat (map (\<lambda>x. case py_int x of Inl e \<Rightarrow> [] | Inr i \<Rightarrow> [i]) order)"

fun first_occurrences :: "int list \<Rightarrow> int list" where
  "first_occurrences [] = []"
| "first_occurrences (i # is) = i # filter (\<lambda>j. j \<noteq> i) (first_occurrences is)"

definition clamp_keep :: "int \<Rightarrow> nat \<Rightarrow> nat" where
  "clamp_keep keep_n len = nat (max 1 (min keep_n (int len)))"

definition ranked_ids :: "nat \<Rightarrow> json list \<Rightarrow> int list" where
  "ranked_ids k order =
     first_occurrences (filter (\<lambda>i. 1 \<le> i \<and> i \<le> int k) (ids_of order))"

definition reconciled :: "'r list \<Rightarrow> nat \<Rightarrow> json list \<Rightarrow> 'r list" where
  "reconciled results k order =
     map (\<lambda>i. results ! nat (i - 1)) (ranked_ids k order)
     @ map (\<lambda>j. results ! j) (filter (\<lambda>j. int (Suc j) \<notin> set (ranked_ids k order)) [0..<k])
     @ drop k results"

section \<open>RouteAdvisor\<close>

text \<open>
  \<^verbatim>\<open>route_rag\<close> of \<^verbatim>\<open>rag_routing.py\<close>. The decision and the caller's defaults are
  dicts (\<^verbatim>\<open>dict[str, Any]\<close>). The two merge loops write \<^verbatim>\<open>out[key]\<close>.
\<close>

type_synonym pydict = "(string \<times> json) list"

definition bool_keys :: "string list" where
  "bool_keys = [''use_docs'', ''use_web'', ''use_kiwix'']"

definition str_keys :: "string list" where
  "str_keys = [''doc_group'', ''doc_source'', ''doc_query'', ''web_query'', ''kiwix_query'']"

text \<open>One round of the first loop: \<^verbatim>\<open>if isinstance(obj.get(key), bool): out[key] = ...\<close>.\<close>

definition merge_bool :: "pydict \<Rightarrow> pydict \<Rightarrow> string \<Rightarrow> pydict" where
  "merge_bool obj out key =
     (case dict_get obj key of JBool b \<Rightarrow> dict_set out key (JBool b) | _ \<Rightarrow> out)"

text \<open>
  One round of the second loop: a string is stripped and stored (\<^verbatim>\<open>None\<close> when blank),
  \<^verbatim>\<open>None\<close> is stored, any other value leaves \<open>out\<close> alone. \<^verbatim>\<open>obj.get(key)\<close> is
  \<^verbatim>\<open>None\<close> both for a JSON \<^verbatim>\<open>null\<close> and for a key that \<open>obj\<close> does not have.
\<close>

definition merge_str :: "pydict \<Rightarrow> pydict \<Rightarrow> string \<Rightarrow> pydict" where
  "merge_str obj out key =
     (case dict_get obj key of
        JStr val \<Rightarrow> (let v = strip val in dict_set out key (if v \<noteq> [] then JStr v else JNull))
      | JNull \<Rightarrow> dict_set out key JNull
      | _ \<Rightarrow> out)"

definition route_merge :: "pydict \<Rightarrow> pydict \<Rightarrow> pydict" where
  "route_merge obj defaults =
     foldl (merge_str obj) (foldl (merge_bool obj) defaults bool_keys) str_keys"

text \<open>
  \<^verbatim>\<open>route_rag\<close> on values: \<^verbatim>\<open>dict(defaults)\<close> is a copy with the same items.
  \<open>max_size\<close> is the configured \<^verbatim>\<open>max_json_parse_size\<close>. The \<^verbatim>\<open>try\<close> block
  ends before the call of \<^verbatim>\<open>_json_obj_from_text\<close>, so an exception of that call
  leaves \<^verbatim>\<open>route_rag\<close>: the result is the decision or the exception raised.
\<close>

definition route_rag ::
  "(string \<Rightarrow> py_error + json) \<Rightarrow> int \<Rightarrow> http_outcome \<Rightarrow> string \<Rightarrow> pydict
     \<Rightarrow> py_error + pydict" where
  "route_rag loads max_size resp query defaults =
     (let q = strip query in
      if q = [] then Inr defaults
      else
        (case llm_content loads resp of
           Inl e \<Rightarrow> Inr defaults
         | Inr content \<Rightarrow>
             (case json_obj_from_text loads content max_size of
                Inl e \<Rightarrow> Inl e
              | Inr v \<Rightarrow>
                  (case v of
                     JObj obj \<Rightarrow> Inr (route_merge obj defaults)
                   | _ \<Rightarrow> Inr defaults))))"

subsection \<open>The same function on a store of dict objects\<close>

text \<open>
  Whether the caller's dict is mutated depends on which object each write goes to, so
  the dicts live in a store: an address is an index into the list of objects,
  \<^verbatim>\<open>dict(d)\<close> allocates a new object and \<^verbatim>\<open>out[key] = v\<close> updates the object at the
  address \<open>out\<close>. A call ends with the store it leaves and either the address it
  returns or the exception it raises.
\<close>

type_synonym heap = "pydict list"

definition new_dict :: "heap \<Rightarrow> pydict \<Rightarrow> nat \<times> heap" where
  "new_dict h d = (length h, h @ [d])"

definition setitem :: "heap \<Rightarrow> nat \<Rightarrow> string \<Rightarrow> json \<Rightarrow> heap" where
  "setitem h a key v = h[a := dict_set (h ! a) key v]"

definition merge_bool_st :: "pydict \<Rightarrow> nat \<Rightarrow> heap \<Rightarrow> string \<Rightarrow> heap" where
  "merge_bool_st obj out h key =
     (case dict_get obj key of JBool b \<Rightarrow> setitem h out key (JBool b) | _ \<Rightarrow> h)"

definition merge_str_st :: "pydict \<Rightarrow> nat \<Rightarrow> heap \<Rightarrow> string \<Rightarrow> heap" where
  "merge_str_st obj out h key =
     (case dict_get obj key of
        JStr val \<Rightarrow> (let v = strip val in setitem h out key (if v \<noteq> [] then JStr v else JNull))
      | JNull \<Rightarrow> setitem h out key JNull
      | _ \<Rightarrow> h)"

definition returned :: "nat \<times> heap \<Rightarrow> (py_error + nat) \<times> heap" where
  "returned r = (Inr (fst r), snd r)"

definition route_rag_st ::
  "(string \<Rightarrow> py_error + json) \<Rightarrow> int \<Rightarrow> http_outcome \<Rightarrow> string \<Rightarrow> heap \<Rightarrow> nat
     \<Rightarrow> (py_error + nat) \<times> heap" where
  "route_rag_st loads max_size resp query h defaults =
     (let q = strip query in
      if q = [] then returned (new_dict h (h ! defaults))
      else
        (case llm_content loads resp of
           Inl e \<Rightarrow> returned (new_dict h (h ! defaults))
         | Inr content \<Rightarrow>
             (case json_obj_from_text loads content max_size of
                Inl e \<Rightarrow> (Inl e, h)
              | Inr v \<Rightarrow>
                  (case v of
                     JObj obj \<Rightarrow>
                       (case new_dict h (h ! defaults) of
                          (out, h1) \<Rightarrow>
                            (Inr out, foldl (merge_str_st obj out)
                                        (foldl (merge_bool_st obj out) h1 bool_keys) str_keys))
                   | _ \<Rightarrow> returned (new_dict h (h ! defaults))))))"

section \<open>Concrete extractions\<close>

lemma scan_noise: \<open>scan_braces 0 False False 0 ''{"a": 1, "b": "x}y"} trailing'' = Some 20\<close>
  by code_simp

lemma loads_noise:
  \<open>json_loads ''{"a": 1, "b": "x}y"}'' = Inr (JObj [(''a'', JInt 1), (''b'', JStr ''x}y'')])\<close>
  by code_simp

lemma scan_malformed: \<open>scan_braces 0 False False 0 ''{"a": }'' = Some 7\<close>
  by code_simp

lemma parse_malformed: \<open>json_parse ''{"a": }'' = Bad\<close>
  by code_simp

text \<open>
  C5. On \<^verbatim>\<open>noise {"a": 1, "b": "x}y"} trailing\<close> the object extractor returns the
  parsed object with the two members \<open>a = 1\<close> and \<open>b = "x}y"\<close> (the brace inside the
  string does not close the span), and on the malformed \<^verbatim>\<open>{"a": }\<close> it returns
  \<^verbatim>\<open>None\<close> and raises nothing: the decoder rejects the span with a syntax error,
  which the extractor catches. Both hold for every size cap that admits the text; below
  the cap the extractor returns \<^verbatim>\<open>None\<close> up front.
\<close>

theorem C5_object_extractor_examples:
  \<open>json_obj_from_text json_loads ''noise {"a": 1, "b": "x}y"} trailing'' max_size =
     (if max_size < 35 then Inr JNull else Inr (JObj [(''a'', JInt 1), (''b'', JStr ''x}y'')]))
   \<and> json_parse ''{"a": }'' = Bad
   \<and> json_obj_from_text json_loads ''{"a": }'' max_size = Inr JNull\<close>
proof -
  have a: "json_obj_from_text json_loads ''noise {\"a\": 1, \"b\": \"x}y\"} trailing'' max_size =
     (if max_size < 35 then Inr JNull else Inr (JObj [(''a'', JInt 1), (''b'', JStr ''x}y'')]))"
  proof (cases "max_size < 35")
    case True
    then show ?thesis by (simp add: json_obj_from_text_def)
  next
    case False
    then have m: "min 35 (6 + max_size) = 35" by simp
    show ?thesis using False
      by (simp add: json_obj_from_text_def m scan_noise loads_noise)
  qed
  have b: "json_obj_from_text json_loads ''{\"a\": }'' max_size = Inr JNull"
  proof (cases "max_size < 7")
    case True
    then show ?thesis by (simp add: json_obj_from_text_def)
  next
    case False
    then have m: "min 7 max_size = 7" by simp
    show ?thesis using False
      by (simp add: json_obj_from_text_def m scan_malformed json_loads_def parse_malformed)
  qed
  show ?thesis using a b parse_malformed by simp
qed

section \<open>The reranker's reconciliation\<close>

text \<open>The dict \<open>by_id\<close> has exactly the keys \<open>1 .. len(candidates)\<close>.\<close>

lemma by_id_enum:
  "map_of (map (\<lambda>(i, r). (int i, r)) (enumerate n cs)) i =
     (if int n \<le> i \<and> i < int n + int (length cs) then Some (cs ! nat (i - int n)) else None)"
proof (induction cs arbitrary: n)
  case Nil
  then show ?case by simp
next
  case (Cons x xs)
  show ?case
  proof (cases "i = int n")
    case True
    then show ?thesis by simp
  next
    case False
    then have "nat (i - int n) = Suc (nat (i - int (Suc n)))" if "int n \<le> i"
      using that by simp
    then show ?thesis using False Cons.IH [of "Suc n"] by auto
  qed
qed

lemma by_id_eq:
  "by_id cs i = (if 1 \<le> i \<and> i \<le> int (length cs) then Some (cs ! nat (i - 1)) else None)"
  unfolding by_id_def by (simp add: by_id_enum) 

lemma filter_seen_drop:
  "i \<in> seen \<Longrightarrow> filter (\<lambda>j. j \<notin> seen) (filter (\<lambda>j. j \<noteq> i) ys) = filter (\<lambda>j. j \<notin> seen) ys"
  by (induction ys) auto

lemma filter_seen_drop':
  "i \<in> seen \<Longrightarrow> filter (\<lambda>j. j \<noteq> i \<and> j \<notin> seen) ys = filter (\<lambda>j. j \<notin> seen) ys"
  by (induction ys) auto

lemma filter_seen_insert:
  "filter (\<lambda>j. j \<notin> seen) (filter (\<lambda>j. j \<noteq> i) ys) = filter (\<lambda>j. j \<notin> insert i seen) ys"
  by (induction ys) auto

lemma ranked_ids_Nil: "ranked_ids k [] = []"
  by (simp add: ranked_ids_def ids_of_def)

lemma ranked_ids_skip: "py_int x = Inl e \<Longrightarrow> ranked_ids k (x # order) = ranked_ids k order"
  by (simp add: ranked_ids_def ids_of_def)

lemma ranked_ids_invalid:
  "py_int x = Inr i \<Longrightarrow> \<not> (1 \<le> i \<and> i \<le> int k) \<Longrightarrow> ranked_ids k (x # order) = ranked_ids k order"
  by (auto simp: ranked_ids_def ids_of_def)

lemma ranked_ids_valid:
  "py_int x = Inr i \<Longrightarrow> 1 \<le> i \<Longrightarrow> i \<le> int k \<Longrightarrow>
     ranked_ids k (x # order) = i # filter (\<lambda>j. j \<noteq> i) (ranked_ids k order)"
  by (simp add: ranked_ids_def ids_of_def)

lemma pick_eq:
  "pick cs order picked seen =
     (picked @ map (\<lambda>i. cs ! nat (i - 1))
        (filter (\<lambda>i. i \<notin> seen) (ranked_ids (length cs) order)),
      seen \<union> set (ranked_ids (length cs) order))"
proof (induction order arbitrary: picked seen)
  case Nil
  then show ?case by (simp add: ranked_ids_Nil)
next
  case (Cons x order)
  show ?case
  proof (cases "py_int x")
    case (Inl e)
    then show ?thesis using Cons.IH by (simp add: ranked_ids_skip)
  next
    case (Inr i)
    show ?thesis
    proof (cases "1 \<le> i \<and> i \<le> int (length cs)")
      case False
      then have "by_id cs i = None" by (simp add: by_id_eq)
      then show ?thesis using Inr Cons.IH ranked_ids_invalid [OF Inr False] by simp
    next
      case True
      then have b: "by_id cs i = Some (cs ! nat (i - 1))" by (simp add: by_id_eq)
      have r: "ranked_ids (length cs) (x # order) = i # filter (\<lambda>j. j \<noteq> i) (ranked_ids (length cs) order)"
        using ranked_ids_valid [OF Inr] True by simp
      show ?thesis
      proof (cases "i \<in> seen")
        case True
        have s: "seen \<union> set (i # filter (\<lambda>j. j \<noteq> i) (ranked_ids (length cs) order))
            = seen \<union> set (ranked_ids (length cs) order)"
          using True by auto
        show ?thesis unfolding r s using True Inr Cons.IH
          by (simp add: filter_seen_drop')
      next
        case False
        have s: "seen \<union> set (i # filter (\<lambda>j. j \<noteq> i) (ranked_ids (length cs) order))
            = insert i seen \<union> set (ranked_ids (length cs) order)"
          by auto
        show ?thesis unfolding r s using False Inr b Cons.IH
          by (simp add: filter_seen_insert)
      qed
    qed
  qed
qed

lemma unseen_eq:
  "unseen cs seen = map (\<lambda>j. cs ! j) (filter (\<lambda>j. int (Suc j) \<notin> seen) [0..<length cs])"
proof -
  have "enumerate 1 cs = map (\<lambda>j. (Suc j, cs ! j)) [0..<length cs]"
    by (rule nth_equalityI) (simp_all add: nth_enumerate_eq)
  then show ?thesis
    by (simp add: unseen_def filter_map comp_def)
qed


lemma first_occurrences_set: "set (first_occurrences xs) = set xs"
  by (induction xs) auto

lemma ranked_ids_range: "i \<in> set (ranked_ids k order) \<Longrightarrow> 1 \<le> i \<and> i \<le> int k"
  by (simp add: ranked_ids_def first_occurrences_set)

lemma clamp_keep_bounds: "results \<noteq> [] \<Longrightarrow>
   1 \<le> clamp_keep keep_n (length results) \<and> clamp_keep keep_n (length results) \<le> length results"
  by (cases results) (auto simp: clamp_keep_def)

lemma reconciled_take:
  assumes "k \<le> length results"
  shows "reconciled results k order =
     map (\<lambda>i. take k results ! nat (i - 1)) (ranked_ids k order)
     @ unseen (take k results) (set (ranked_ids k order)) @ drop k results"
proof -
  have a: "map (\<lambda>i. results ! nat (i - 1)) (ranked_ids k order) =
           map (\<lambda>i. take k results ! nat (i - 1)) (ranked_ids k order)"
  proof (rule map_cong [OF refl])
    fix i assume "i \<in> set (ranked_ids k order)"
    then have "nat (i - 1) < k" using ranked_ids_range [of i k order] by auto
    then show "results ! nat (i - 1) = take k results ! nat (i - 1)" by simp
  qed
  have b: "map (\<lambda>j. results ! j) (filter P [0..<k]) = map (\<lambda>j. take k results ! j) (filter P [0..<k])" for P
    by (rule map_cong [OF refl]) simp
  show ?thesis using assms by (simp add: reconciled_def a b unseen_eq)
qed

lemma reconciled_none:
  assumes "k \<le> length results" "ranked_ids k order = []"
  shows "reconciled results k order = results"
proof -
  have "map (\<lambda>j. results ! j) [0..<k] = take k results"
    using assms(1) by (simp add: list_eq_iff_nth_eq)
  then show ?thesis using assms(2) by (simp add: reconciled_def)
qed

lemma rerank_reconciled:
  assumes "results \<noteq> []"
    and "llm_content loads resp = Inr content"
    and "extract_json_array loads content = Some order"
  shows "rerank_results loads resp results keep_n =
           reconciled results (clamp_keep keep_n (length results)) order"
proof -
  define k where "k = clamp_keep keep_n (length results)"
  have k: "k \<le> length results" using clamp_keep_bounds [OF assms(1)] by (simp add: k_def)
  have len: "length (take k results) = k" using k by simp
  have p: "pick (take k results) order [] {} =
     (map (\<lambda>i. take k results ! nat (i - 1)) (ranked_ids k order), set (ranked_ids k order))"
    using pick_eq [of "take k results" order "[]" "{}"] unfolding len by simp
  show ?thesis
  proof (cases "ranked_ids k order = []")
    case True
    have "order = [] \<or> order \<noteq> []" by simp
    then have "rerank_results loads resp results keep_n = results"
      using assms p True
      by (auto simp: rerank_results_def Let_def k_def [symmetric] clamp_keep_def [symmetric])
    then show ?thesis using reconciled_none [OF k True] by (simp add: k_def)
  next
    case False
    then have ne: "order \<noteq> []" by (auto simp: ranked_ids_Nil)
    have "rerank_results loads resp results keep_n =
        map (\<lambda>i. take k results ! nat (i - 1)) (ranked_ids k order)
        @ unseen (take k results) (set (ranked_ids k order)) @ drop k results"
      using assms p False ne
      by (simp add: rerank_results_def Let_def k_def [symmetric] clamp_keep_def [symmetric])
    then show ?thesis using reconciled_take [OF k] by (simp add: k_def)
  qed
qed

lemma content_31: \<open>llm_content json_loads (Response 200 ''{"message": {"role": "assistant", "content": "[3, 1]"}}'') = Inr ''[3, 1]''\<close>
  by code_simp

lemma extract_31: \<open>extract_json_array json_loads ''[3, 1]'' = Some [JInt 3, JInt 1]\<close>
  by code_simp

lemma reconciled_31: "reconciled [c1, c2, c3] 3 [JInt 3, JInt 1] = [c3, c1, c2]"
  by (simp add: reconciled_def ranked_ids_def ids_of_def upt_rec)

lemma ranked_ids_distinct: "distinct (ranked_ids k order)"
proof -
  have "distinct (first_occurrences xs)" for xs by (induction xs) auto
  then show ?thesis by (simp add: ranked_ids_def)
qed

lemma ranked_ids_set:
  "set (ranked_ids k order) = {i \<in> set (ids_of order). 1 \<le> i \<and> i \<le> int k}"
  by (auto simp: ranked_ids_def first_occurrences_set)

lemma clamp_keep_3: "clamp_keep 3 (length [c1, c2, c3]) = 3"
  by (simp add: clamp_keep_def)

lemma example_31:
  \<open>rerank_results json_loads
      (Response 200 ''{"message": {"role": "assistant", "content": "[3, 1]"}}'')
      [c1, c2, c3] 3 = [c3, c1, c2]\<close>
proof -
  have ne: "[c1, c2, c3] \<noteq> []" by simp
  show ?thesis
    unfolding rerank_reconciled [OF ne content_31 extract_31, of 3] clamp_keep_3
    by (rule reconciled_31)
qed

text \<open>
  C1. For every non-empty result list, every \<open>keep_n\<close> and every array \<open>order\<close>
  extracted from the LLM response, \<^verbatim>\<open>rerank_results\<close> returns \<open>reconciled\<close>: the
  candidates at the ids of the array in the array's order, each id once at its first
  mention and only ids within \<open>[1, keep_n]\<close> (after clamping), then the candidates never
  mentioned in their original order, then the results beyond \<open>keep_n\<close> unchanged. The
  ranked ids are distinct and are exactly the array's ids within the range. For three
  candidates and the LLM order \<^verbatim>\<open>[3, 1]\<close> the output is the third, the first, the second.
\<close>

theorem C1_rerank_reconciliation:
  assumes "results \<noteq> []"
    and "llm_content loads resp = Inr content"
    and "extract_json_array loads content = Some order"
  shows \<open>rerank_results loads resp results keep_n =
           reconciled results (clamp_keep keep_n (length results)) order
         \<and> distinct (ranked_ids (clamp_keep keep_n (length results)) order)
         \<and> set (ranked_ids (clamp_keep keep_n (length results)) order) =
             {i \<in> set (ids_of order). 1 \<le> i \<and> i \<le> int (clamp_keep keep_n (length results))}
         \<and> rerank_results json_loads
             (Response 200 ''{"message": {"role": "assistant", "content": "[3, 1]"}}'')
             [c1, c2, c3] 3 = [c3, c1, c2]\<close>
proof (intro conjI)
  show "rerank_results loads resp results keep_n =
           reconciled results (clamp_keep keep_n (length results)) order"
    by (rule rerank_reconciled [OF assms])
qed (rule ranked_ids_distinct, rule ranked_ids_set, rule example_31)

theorem C1_rerank_reconciliation_witness:
  \<open>rerank_results json_loads
      (Response 200 ''{"message": {"role": "assistant", "content": "[3, 1]"}}'')
      [1, 2, 3 :: nat] 3 = [3, 1, 2]\<close>
proof -
  have ne: "[1, 2, 3 :: nat] \<noteq> []" by simp
  note w = C1_rerank_reconciliation [OF ne content_31 extract_31, of 3, THEN conjunct1]
  show ?thesis unfolding w clamp_keep_3 by (rule reconciled_31)
qed

lemma rerank_llm_failed:
  "llm_content loads resp = Inl e \<Longrightarrow> rerank_results loads resp results keep_n = results"
  by (simp add: rerank_results_def Let_def)

lemma rerank_no_array:
  "llm_content loads resp = Inr content \<Longrightarrow> extract_json_array loads content = None \<Longrightarrow>
     rerank_results loads resp results keep_n = results"
  by (simp add: rerank_results_def Let_def)

lemma rerank_no_valid_id:
  assumes "llm_content loads resp = Inr content"
    and "extract_json_array loads content = Some order"
    and "\<forall>i \<in> set (ids_of order). \<not> (1 \<le> i \<and> i \<le> int (clamp_keep keep_n (length results)))"
  shows "rerank_results loads resp results keep_n = results"
proof (cases "results = []")
  case True
  then show ?thesis by (simp add: rerank_results_def)
next
  case False
  have "filter (\<lambda>i. 1 \<le> i \<and> i \<le> int (clamp_keep keep_n (length results))) (ids_of order) = []"
    using assms(3) by (simp add: filter_empty_conv)
  then have r: "ranked_ids (clamp_keep keep_n (length results)) order = []"
    by (simp add: ranked_ids_def)
  have k: "clamp_keep keep_n (length results) \<le> length results"
    using clamp_keep_bounds [OF False, of keep_n] by simp
  show ?thesis
    unfolding rerank_reconciled [OF False assms(1,2), of keep_n]
    by (rule reconciled_none [OF k r])
qed

section \<open>The reranker's fallback\<close>

lemma llm_request_failed: "llm_content loads RequestFailed = Inl TransportError"
  by (simp add: llm_content_def)

lemma llm_bad_status:
  "\<not> (200 \<le> status \<and> status \<le> 299) \<Longrightarrow> llm_content loads (Response status body) = Inl HTTPStatusError"
  by (auto simp: llm_content_def)

lemma llm_bad_body:
  "loads body = Inl e \<Longrightarrow> 200 \<le> status \<Longrightarrow> status \<le> 299 \<Longrightarrow>
     llm_content loads (Response status body) = Inl e"
  by (simp add: llm_content_def chat_content_def)

text \<open>
  \<^verbatim>\<open>int\<close> rejects a string that starts with the separator U+001C, which
  \<^verbatim>\<open>str.strip\<close> would remove, and accepts one padded with spaces.
\<close>

lemma py_int_examples:
  "py_int (JStr [CHR 0x1C, CHR ''2'']) = Inl ValueError
   \<and> py_int (JStr '' 2 '') = Inr 2
   \<and> py_int (JStr ''1_0'') = Inr 10
   \<and> py_int (JStr ''2.0'') = Inl ValueError"
  by code_simp

text \<open>
  C3. \<^verbatim>\<open>rerank_results\<close> returns the input list unchanged, in its order, whenever the
  request fails in transport, the status is outside 200..299, reading the content of
  the response raises (any error of the \<^verbatim>\<open>try\<close> block), no array can be extracted from
  the content, or no id of the extracted array lies in the valid range. The function is
  total: every exception of the rerank step is a branch that ends in a returned list.
\<close>

theorem C3_rerank_fallback:
  "rerank_results loads RequestFailed results keep_n = results
   \<and> (\<not> (200 \<le> status \<and> status \<le> 299) \<longrightarrow>
        rerank_results loads (Response status body) results keep_n = results)
   \<and> (llm_content loads resp = Inl e \<longrightarrow> rerank_results loads resp results keep_n = results)
   \<and> (llm_content loads resp = Inr content \<and> extract_json_array loads content = None \<longrightarrow>
        rerank_results loads resp results keep_n = results)
   \<and> (llm_content loads resp = Inr content \<and> extract_json_array loads content = Some order
        \<and> (\<forall>i \<in> set (ids_of order).
              \<not> (1 \<le> i \<and> i \<le> int (clamp_keep keep_n (length results)))) \<longrightarrow>
        rerank_results loads resp results keep_n = results)"
proof (intro conjI impI)
  show "rerank_results loads RequestFailed results keep_n = results"
    by (rule rerank_llm_failed [OF llm_request_failed])
next
  assume "\<not> (200 \<le> status \<and> status \<le> 299)"
  then show "rerank_results loads (Response status body) results keep_n = results"
    by (rule rerank_llm_failed [OF llm_bad_status])
next
  assume "llm_content loads resp = Inl e"
  then show "rerank_results loads resp results keep_n = results"
    by (rule rerank_llm_failed)
next
  assume "llm_content loads resp = Inr content \<and> extract_json_array loads content = None"
  then show "rerank_results loads resp results keep_n = results"
    using rerank_no_array by blast
next
  assume a: "llm_content loads resp = Inr content \<and> extract_json_array loads content = Some order
        \<and> (\<forall>i \<in> set (ids_of order).
              \<not> (1 \<le> i \<and> i \<le> int (clamp_keep keep_n (length results))))"
  show "rerank_results loads resp results keep_n = results"
    by (rule rerank_no_valid_id [of loads resp content order keep_n results]) (use a in blast)+
qed

lemma content_bad_body: \<open>llm_content json_loads (Response 200 ''<html>busy</html>'') = Inl JSONDecodeError\<close>
  by code_simp

lemma content_prose: \<open>llm_content json_loads (Response 200 ''{"message": {"content": "I cannot rank these."}}'') = Inr ''I cannot rank these.''\<close>
  by code_simp

lemma extract_prose: \<open>extract_json_array json_loads ''I cannot rank these.'' = None\<close>
  by code_simp

lemma content_70: \<open>llm_content json_loads (Response 200 ''{"message": {"content": "[7, 0, null]"}}'') = Inr ''[7, 0, null]''\<close>
  by code_simp

lemma extract_70: \<open>extract_json_array json_loads ''[7, 0, null]'' = Some [JInt 7, JInt 0, JNull]\<close>
  by code_simp

lemma ids_70: "\<forall>i \<in> set (ids_of [JInt 7, JInt 0, JNull]). \<not> (1 \<le> i \<and> i \<le> int (clamp_keep 2 (length [1, 2, 3 :: nat])))"
  by (simp add: ids_of_def clamp_keep_def)

theorem C3_rerank_fallback_witness:
  \<open>rerank_results json_loads RequestFailed [1, 2, 3 :: nat] 2 = [1, 2, 3]
   \<and> rerank_results json_loads (Response 503 ''busy'') [1, 2, 3 :: nat] 2 = [1, 2, 3]
   \<and> rerank_results json_loads (Response 200 ''<html>busy</html>'') [1, 2, 3 :: nat] 2 = [1, 2, 3]
   \<and> rerank_results json_loads (Response 200 ''{"message": {"content": "I cannot rank these."}}'')
        [1, 2, 3 :: nat] 2 = [1, 2, 3]
   \<and> rerank_results json_loads (Response 200 ''{"message": {"content": "[7, 0, null]"}}'')
        [1, 2, 3 :: nat] 2 = [1, 2, 3]\<close>
proof (intro conjI)
  show "rerank_results json_loads RequestFailed [1, 2, 3 :: nat] 2 = [1, 2, 3]"
    by (rule C3_rerank_fallback [THEN conjunct1])
  have s: "\<not> (200 \<le> (503::nat) \<and> (503::nat) \<le> 299)" by simp
  show "rerank_results json_loads (Response 503 ''busy'') [1, 2, 3 :: nat] 2 = [1, 2, 3]"
    by (rule C3_rerank_fallback [THEN conjunct2, THEN conjunct1, rule_format, OF s])
  show "rerank_results json_loads (Response 200 ''<html>busy</html>'') [1, 2, 3 :: nat] 2 = [1, 2, 3]"
    by (rule C3_rerank_fallback [THEN conjunct2, THEN conjunct2, THEN conjunct1, rule_format,
          OF content_bad_body])
  show \<open>rerank_results json_loads (Response 200 ''{"message": {"content": "I cannot rank these."}}'')
        [1, 2, 3 :: nat] 2 = [1, 2, 3]\<close>
    by (rule C3_rerank_fallback [THEN conjunct2, THEN conjunct2, THEN conjunct2, THEN conjunct1,
          rule_format, OF conjI [OF content_prose extract_prose]])
  show \<open>rerank_results json_loads (Response 200 ''{"message": {"content": "[7, 0, null]"}}'')
        [1, 2, 3 :: nat] 2 = [1, 2, 3]\<close>
    by (rule C3_rerank_fallback [THEN conjunct2, THEN conjunct2, THEN conjunct2, THEN conjunct2,
          rule_format, OF conjI [OF content_70 conjI [OF extract_70 ids_70]]])
qed

section \<open>An integer literal beyond the digit limit\<close>

lemma takeWhile_ones:
  "takeWhile is_digit (replicate n (CHR ''1'') @ CHR ''}'' # r) = replicate n (CHR ''1'')"
  by (induction n) (simp_all add: is_digit_def)

lemma dropWhile_ones:
  "dropWhile is_digit (replicate n (CHR ''1'') @ CHR ''}'' # r) = CHR ''}'' # r"
  by (induction n) (simp_all add: is_digit_def)

lemma parse_number_long:
  assumes "max_str_digits < Suc n"
  shows "parse_number (replicate (Suc n) (CHR ''1'') @ CHR ''}'' # r) = Raised ValueError"
proof -
  have d: "is_digit (CHR ''1'')" by (simp add: is_digit_def)
  have t: "takeWhile is_digit (CHR ''1'' # replicate n (CHR ''1'') @ CHR ''}'' # r)
             = CHR ''1'' # replicate n (CHR ''1'')"
    using takeWhile_ones [of "Suc n" r] by simp
  have f: "parse_frac (CHR ''}'' # r) = None" by (simp add: parse_frac_def)
  have e: "parse_exp (CHR ''}'' # r) = None" by (simp add: parse_exp_def)
  have l: "drop (Suc n) (CHR ''1'' # replicate n (CHR ''1'') @ CHR ''}'' # r) = CHR ''}'' # r"
    by simp
  show ?thesis
    unfolding parse_number_def
    apply (simp only: replicate_Suc append_Cons list.case char.inject simp_thms if_False if_True
        split_conv Let_def d t length_Cons length_replicate l f e option.case)
    using assms apply simp
    done
qed

lemma parse_value_long:
  assumes "max_str_digits < Suc n"
  shows "parse_value (Suc k) (replicate (Suc n) (CHR ''1'') @ CHR ''}'' # r) = Raised ValueError"
  using parse_number_long [OF assms, of r] by (simp add: parse_scalar_def)

lemma scan_braces_ones:
  "scan_braces d False False k (replicate n (CHR ''1'') @ cs) = scan_braces d False False (k + n) cs"
  by (induction n arbitrary: k) simp_all

lemma parse_string_ones:
  "parse_string acc (replicate n (CHR ''1'') @ cs) = parse_string (replicate n (CHR ''1'') @ acc) cs"
proof (induction n arbitrary: acc)
  case 0
  then show ?case by simp
next
  case (Suc n)
  show ?case using Suc.IH [of "CHR ''1'' # acc"] by (simp add: replicate_app_Cons_same)
qed

lemma loads_long:
  assumes "max_str_digits < Suc n"
  shows \<open>json_loads (''{"use_web": '' @ replicate (Suc n) (CHR ''1'') @ ''}'') = Inl ValueError\<close>
proof -
  obtain k where k: "2 * length (''{\"use_web\": '' @ replicate (Suc n) (CHR ''1'') @ ''}'') + 2
      = Suc (Suc (Suc k))"
    by (simp add: numeral_eq_Suc)
  have v: "parse_value (Suc k) (replicate (Suc n) (CHR ''1'') @ ''}'') = Raised ValueError"
    by (rule parse_value_long [OF assms])
  have m: \<open>parse_members (Suc (Suc k)) [] (''"use_web": '' @ replicate (Suc n) (CHR ''1'') @ ''}'')
      = Raised ValueError\<close>
    using v by (simp add: skip_ws_def json_ws_def)
  have p: \<open>parse_value (Suc (Suc (Suc k))) (''{"use_web": '' @ replicate (Suc n) (CHR ''1'') @ ''}'')
      = Raised ValueError\<close>
    using m by (simp add: skip_ws_def json_ws_def)
  show ?thesis
    unfolding json_loads_def json_parse_def k using p by (simp add: skip_ws_def json_ws_def)
qed

lemma scan_long:
  \<open>scan_braces 0 False False 0 (''{"use_web": '' @ replicate n (CHR ''1'') @ ''}'') = Some (n + 13)\<close>
  by (simp add: scan_braces_ones)

lemma obj_long:
  assumes "max_str_digits < Suc n" and "int (Suc n) + 13 \<le> m"
  shows \<open>json_obj_from_text json_loads (''{"use_web": '' @ replicate (Suc n) (CHR ''1'') @ ''}'') m
           = Inl ValueError\<close>
proof -
  let ?s = "''{\"use_web\": '' @ replicate (Suc n) (CHR ''1'') @ ''}''"
  have len: "length ?s = Suc n + 13" by simp
  have i: "length (takeWhile (\<lambda>ch. ch \<noteq> CHR ''{'') ?s) = 0" by simp
  have stop: "nat (min (int (length ?s)) (int 0 + m)) = length ?s"
    using assms(2) unfolding len by simp
  have sc: "scan_braces 0 False False 0 ?s = Some (Suc n + 13)"
    using scan_long [of "Suc n"] by simp
  have ne: "?s \<noteq> []" by simp
  have cap: "\<not> int (length ?s) > m" using assms(2) unfolding len by simp
  show ?thesis
    unfolding json_obj_from_text_def Let_def i
    using ne cap stop sc loads_long [OF assms(1)] len
    by simp
qed


lemma strip_id:
  assumes "s \<noteq> []" and "\<not> py_isspace (hd s)" and "\<not> py_isspace (last s)"
  shows "strip s = s"
proof -
  have l: "lstrip s = s" using assms(1,2) by (cases s) (simp_all add: lstrip_def)
  have "dropWhile py_isspace (rev s) = rev s"
    using assms(1,3) by (cases "rev s") (simp_all add: last_rev [symmetric] hd_rev)
  then show ?thesis by (simp add: strip_def l rstrip_def)
qed

lemma quote_ones:
  "concat (map (\<lambda>c. if c = CHR 0x22 \<or> c = CHR 0x5C then [CHR 0x5C, c]
                        else if (of_char c :: nat) < 32
                        then [CHR 0x5C, CHR ''u'', CHR ''0'', CHR ''0'',
                              hex_digit ((of_char c :: nat) div 16),
                              hex_digit ((of_char c :: nat) mod 16)]
                        else [c]) (replicate n (CHR ''1''))) = replicate n (CHR ''1'')"
  by (induction n) simp_all

lemma chat_body_long:
  \<open>chat_body (''{"use_web": '' @ replicate n (CHR ''1'') @ ''}'') =
     ''{"message": {"role": "assistant", "content": "{'' @ [CHR 0x5C] @ ''"use_web'' @ [CHR 0x5C]
       @ ''": '' @ replicate n (CHR ''1'') @ ''}"}}''\<close>
  by (simp add: chat_body_def json_quote_def quote_ones)

lemma parse_content_long:
  \<open>parse_string [] (''{'' @ [CHR 0x5C] @ ''"use_web'' @ [CHR 0x5C]
       @ ''": '' @ replicate n (CHR ''1'') @ ''}"}}'')
     = Some (''{"use_web": '' @ replicate n (CHR ''1'') @ ''}'', ''}}'')\<close>
  by (simp add: parse_string_ones)

lemma loads_body_long:
  \<open>json_loads (chat_body (''{"use_web": '' @ replicate n (CHR ''1'') @ ''}'')) =
     Inr (JObj [(''message'', JObj [(''role'', JStr ''assistant''),
            (''content'', JStr (''{"use_web": '' @ replicate n (CHR ''1'') @ ''}''))])])\<close>
proof -
  let ?body = "chat_body (''{\"use_web\": '' @ replicate n (CHR ''1'') @ ''}'')"
  have len: "length ?body = n + 64"
    unfolding chat_body_long by simp
  define k where "k = 2 * n + 122"
  have k: "2 * length ?body + 2 = Suc (Suc (Suc (Suc (Suc (Suc (Suc (Suc k)))))))"
    unfolding len k_def by simp
  have c: \<open>parse_value (Suc j) (''"{'' @ [CHR 0x5C] @ ''"use_web'' @ [CHR 0x5C]
       @ ''": '' @ replicate n (CHR ''1'') @ ''}"}}'')
     = Ok (JStr (''{"use_web": '' @ replicate n (CHR ''1'') @ ''}'')) ''}}''\<close> for j
    using parse_content_long [of n] by (simp add: parse_scalar_def)
  have r: \<open>parse_value (Suc j) (''"assistant", "content": "{'' @ [CHR 0x5C] @ ''"use_web'' @ [CHR 0x5C]
       @ ''": '' @ replicate n (CHR ''1'') @ ''}"}}'')
     = Ok (JStr ''assistant'') ('', "content": "{'' @ [CHR 0x5C] @ ''"use_web'' @ [CHR 0x5C]
       @ ''": '' @ replicate n (CHR ''1'') @ ''}"}}'')\<close> for j
    by (simp add: parse_scalar_def)
  have m2: \<open>parse_members (Suc (Suc j)) [(''role'', JStr ''assistant'')]
       (''"content": "{'' @ [CHR 0x5C] @ ''"use_web'' @ [CHR 0x5C]
       @ ''": '' @ replicate n (CHR ''1'') @ ''}"}}'')
     = Ok (JObj [(''role'', JStr ''assistant''),
            (''content'', JStr (''{"use_web": '' @ replicate n (CHR ''1'') @ ''}''))]) ''}''\<close> for j
    using c [of j] by (simp add: skip_ws_def json_ws_def)
  have m1: \<open>parse_members (Suc (Suc (Suc j))) []
       (''"role": "assistant", "content": "{'' @ [CHR 0x5C] @ ''"use_web'' @ [CHR 0x5C]
       @ ''": '' @ replicate n (CHR ''1'') @ ''}"}}'')
     = Ok (JObj [(''role'', JStr ''assistant''),
            (''content'', JStr (''{"use_web": '' @ replicate n (CHR ''1'') @ ''}''))]) ''}''\<close> for j
    using r [of "Suc j"] m2 [of j] by (simp add: skip_ws_def json_ws_def)
  have v1: \<open>parse_value (Suc (Suc (Suc (Suc j))))
       (''{"role": "assistant", "content": "{'' @ [CHR 0x5C] @ ''"use_web'' @ [CHR 0x5C]
       @ ''": '' @ replicate n (CHR ''1'') @ ''}"}}'')
     = Ok (JObj [(''role'', JStr ''assistant''),
            (''content'', JStr (''{"use_web": '' @ replicate n (CHR ''1'') @ ''}''))]) ''}''\<close> for j
    using m1 [of j] by (simp add: skip_ws_def json_ws_def)
  have m0: \<open>parse_members (Suc (Suc (Suc (Suc (Suc j))))) []
       (''"message": {"role": "assistant", "content": "{'' @ [CHR 0x5C] @ ''"use_web'' @ [CHR 0x5C]
       @ ''": '' @ replicate n (CHR ''1'') @ ''}"}}'')
     = Ok (JObj [(''message'', JObj [(''role'', JStr ''assistant''),
            (''content'', JStr (''{"use_web": '' @ replicate n (CHR ''1'') @ ''}''))])]) []\<close> for j
    using v1 [of j] by (simp add: skip_ws_def json_ws_def)
  have v0: \<open>parse_value (Suc (Suc (Suc (Suc (Suc (Suc j))))))
       (''{"message": {"role": "assistant", "content": "{'' @ [CHR 0x5C] @ ''"use_web'' @ [CHR 0x5C]
       @ ''": '' @ replicate n (CHR ''1'') @ ''}"}}'')
     = Ok (JObj [(''message'', JObj [(''role'', JStr ''assistant''),
            (''content'', JStr (''{"use_web": '' @ replicate n (CHR ''1'') @ ''}''))])]) []\<close> for j
    using m0 [of j] by (simp add: skip_ws_def json_ws_def)
  have sk: \<open>skip_ws (''{"message": {"role": "assistant", "content": "{'' @ [CHR 0x5C] @ ''"use_web'' @ [CHR 0x5C]
       @ ''": '' @ replicate n (CHR ''1'') @ ''}"}}'')
     = ''{"message": {"role": "assistant", "content": "{'' @ [CHR 0x5C] @ ''"use_web'' @ [CHR 0x5C]
       @ ''": '' @ replicate n (CHR ''1'') @ ''}"}}''\<close>
    by (simp add: skip_ws_def json_ws_def)
  show ?thesis
    unfolding json_loads_def json_parse_def k
    unfolding chat_body_long sk v0 [of "Suc (Suc k)"]
    by (simp add: skip_ws_def)
qed

lemma content_long:
  \<open>llm_content json_loads (Response 200 (chat_body (''{"use_web": '' @ replicate n (CHR ''1'') @ ''}'')))
     = Inr (''{"use_web": '' @ replicate n (CHR ''1'') @ ''}'')\<close>
proof -
  have s: \<open>strip (''{"use_web": '' @ replicate n (CHR ''1'') @ ''}'')
      = ''{"use_web": '' @ replicate n (CHR ''1'') @ ''}''\<close>
    by (rule strip_id) (simp_all add: py_isspace_def)
  have "chat_content json_loads (chat_body (''{\"use_web\": '' @ replicate n (CHR ''1'') @ ''}''))
      = Inr (''{\"use_web\": '' @ replicate n (CHR ''1'') @ ''}'')"
    unfolding chat_content_def loads_body_long
    using s by (simp add: py_get_def dict_get_def py_strip_def)
  then show ?thesis by (simp add: llm_content_def)
qed

section \<open>The route advisor's merge\<close>

lemma map_of_dict_set: "map_of (dict_set d k v) = (map_of d)(k \<mapsto> v)"
  by (induction d) (auto simp: fun_eq_iff)

lemma map_of_merge_bool:
  "map_of (merge_bool obj out key) k =
     (if k = key then (case dict_get obj key of JBool b \<Rightarrow> Some (JBool b) | _ \<Rightarrow> map_of out k)
      else map_of out k)"
  by (simp add: merge_bool_def map_of_dict_set split: json.splits)

lemma map_of_merge_str:
  "map_of (merge_str obj out key) k =
     (if k = key then
        (case dict_get obj key of
           JStr val \<Rightarrow> Some (if strip val \<noteq> [] then JStr (strip val) else JNull)
         | JNull \<Rightarrow> Some JNull
         | _ \<Rightarrow> map_of out k)
      else map_of out k)"
  by (simp add: merge_str_def map_of_dict_set Let_def split: json.splits)

lemma map_of_fold_bool:
  "map_of (foldl (merge_bool obj) out keys) k =
     (if k \<in> set keys then (case dict_get obj k of JBool b \<Rightarrow> Some (JBool b) | _ \<Rightarrow> map_of out k)
      else map_of out k)"
  by (induction keys arbitrary: out) (auto simp: map_of_merge_bool split: json.splits)

lemma map_of_fold_str:
  "map_of (foldl (merge_str obj) out keys) k =
     (if k \<in> set keys then
        (case dict_get obj k of
           JStr val \<Rightarrow> Some (if strip val \<noteq> [] then JStr (strip val) else JNull)
         | JNull \<Rightarrow> Some JNull
         | _ \<Rightarrow> map_of out k)
      else map_of out k)"
  by (induction keys arbitrary: out) (auto simp: map_of_merge_str split: json.splits)

lemma keys_disjoint: "k \<in> set bool_keys \<Longrightarrow> k \<notin> set str_keys"
  by (auto simp: bool_keys_def str_keys_def)

lemma route_merge_bool_key:
  "k \<in> set bool_keys \<Longrightarrow> map_of (route_merge obj d) k =
     (case dict_get obj k of JBool b \<Rightarrow> Some (JBool b) | _ \<Rightarrow> map_of d k)"
  by (simp add: route_merge_def map_of_fold_str keys_disjoint map_of_fold_bool)

lemma route_merge_str_key:
  "k \<in> set str_keys \<Longrightarrow> map_of (route_merge obj d) k =
     (case dict_get obj k of
        JStr val \<Rightarrow> Some (if strip val \<noteq> [] then JStr (strip val) else JNull)
      | JNull \<Rightarrow> Some JNull
      | _ \<Rightarrow> map_of d k)"
  using keys_disjoint [of k]
  by (auto simp: route_merge_def map_of_fold_str map_of_fold_bool split: json.splits)

lemma route_merge_other_key:
  "k \<notin> set bool_keys \<Longrightarrow> k \<notin> set str_keys \<Longrightarrow> map_of (route_merge obj d) k = map_of d k"
  by (simp add: route_merge_def map_of_fold_str map_of_fold_bool)



lemma route_llm_failed:
  "llm_content loads resp = Inl e \<Longrightarrow> route_rag loads m resp query defaults = Inr defaults"
  by (simp add: route_rag_def Let_def)

lemma route_no_object:
  "llm_content loads resp = Inr content \<Longrightarrow> json_obj_from_text loads content m = Inr v \<Longrightarrow>
   \<forall>obj. v \<noteq> JObj obj \<Longrightarrow> route_rag loads m resp query defaults = Inr defaults"
  by (cases v) (simp_all add: route_rag_def Let_def)

lemma route_merged:
  "strip query \<noteq> [] \<Longrightarrow> llm_content loads resp = Inr content \<Longrightarrow>
   json_obj_from_text loads content m = Inr (JObj obj) \<Longrightarrow>
     route_rag loads m resp query defaults = Inr (route_merge obj defaults)"
  by (simp add: route_rag_def Let_def)

lemma route_raised:
  "strip query \<noteq> [] \<Longrightarrow> llm_content loads resp = Inr content \<Longrightarrow>
   json_obj_from_text loads content m = Inl e \<Longrightarrow>
     route_rag loads m resp query defaults = Inl e"
  by (simp add: route_rag_def Let_def)

lemma setitem_last: "setitem (h @ [d]) (length h) k v = h @ [dict_set d k v]"
  by (simp add: setitem_def)

lemma merge_bool_st_last:
  "merge_bool_st obj (length h) (h @ [d]) key = h @ [merge_bool obj d key]"
  by (simp add: merge_bool_st_def merge_bool_def setitem_last split: json.splits)

lemma merge_str_st_last:
  "merge_str_st obj (length h) (h @ [d]) key = h @ [merge_str obj d key]"
  by (simp add: merge_str_st_def merge_str_def setitem_last Let_def split: json.splits)

lemma fold_bool_st_last:
  "foldl (merge_bool_st obj (length h)) (h @ [d]) keys = h @ [foldl (merge_bool obj) d keys]"
  by (induction keys arbitrary: d) (simp_all add: merge_bool_st_last)

lemma fold_str_st_last:
  "foldl (merge_str_st obj (length h)) (h @ [d]) keys = h @ [foldl (merge_str obj) d keys]"
  by (induction keys arbitrary: d) (simp_all add: merge_str_st_last)


lemma route_rag_st_eq:
  "route_rag_st loads m resp query h defaults =
     (case route_rag loads m resp query (h ! defaults) of
        Inl e \<Rightarrow> (Inl e, h)
      | Inr d \<Rightarrow> (Inr (length h), h @ [d]))"
proof (cases "strip query = []")
  case True
  then show ?thesis by (simp add: route_rag_st_def route_rag_def new_dict_def returned_def)
next
  case False
  show ?thesis
  proof (cases "llm_content loads resp")
    case (Inl e)
    then show ?thesis using False
      by (simp add: route_rag_st_def route_rag_def new_dict_def returned_def)
  next
    case (Inr content)
    note content = Inr
    show ?thesis
    proof (cases "json_obj_from_text loads content m")
      case (Inl e)
      then show ?thesis using False content
        by (simp add: route_rag_st_def route_rag_def)
    next
      case (Inr v)
      show ?thesis
      proof (cases v)
        case (JObj obj)
        then show ?thesis using False content Inr
          by (simp add: route_rag_st_def route_rag_def new_dict_def route_merge_def
              fold_bool_st_last fold_str_st_last)
      qed (use False content Inr in
            \<open>simp_all add: route_rag_st_def route_rag_def new_dict_def returned_def\<close>)
    qed
  qed
qed

lemma loads_long':
  assumes "max_str_digits < n"
  shows \<open>json_loads (''{"use_web": '' @ replicate n (CHR ''1'') @ ''}'') = Inl ValueError\<close>
proof -
  obtain n' where n: "n = Suc n'" using assms by (cases n) simp_all
  show ?thesis using loads_long [of n'] assms unfolding n by simp
qed

lemma obj_long':
  assumes "max_str_digits < n" and "int n + 13 \<le> m"
  shows \<open>json_obj_from_text json_loads (''{"use_web": '' @ replicate n (CHR ''1'') @ ''}'') m
           = Inl ValueError\<close>
proof -
  obtain n' where n: "n = Suc n'" using assms by (cases n) simp_all
  show ?thesis using obj_long [of n' m] assms unfolding n by simp
qed

lemma strip_news_today: "strip ''news today'' \<noteq> []"
  by code_simp

lemma digits_4301: "max_str_digits < 4301"
  by (simp add: max_str_digits_def)

lemma cap_4301: "int 4301 + 13 \<le> 100000"
  by simp

lemma route_long:
  \<open>route_rag json_loads 100000
      (Response 200 (chat_body (''{"use_web": '' @ replicate 4301 (CHR ''1'') @ ''}'')))
      ''news today'' defaults = Inl ValueError\<close>
  by (rule route_raised [OF strip_news_today content_long obj_long' [OF digits_4301 cap_4301]])

section \<open>The route advisor's fallback\<close>

text \<open>
  C2. \<^verbatim>\<open>route_rag\<close> returns the defaults, item for item, whenever the request fails
  in transport, the status is outside 200..299, reading the content raises (any error
  of the \<^verbatim>\<open>try\<close> block), or the extractor returns something that is no JSON object.
  The extraction itself is not guarded: when \<^verbatim>\<open>_json_obj_from_text\<close> raises, the
  exception leaves \<^verbatim>\<open>route_rag\<close> and no decision is returned. That happens on a
  well-formed chat response whose content is an object with an integer of 4301 digits:
  \<^verbatim>\<open>json.loads\<close> raises a plain \<^verbatim>\<open>ValueError\<close>, which the extractor's
  \<^verbatim>\<open>except json.JSONDecodeError\<close> does not catch.
\<close>

theorem C2_route_fallback:
  \<open>route_rag loads m RequestFailed query defaults = Inr defaults
   \<and> (\<not> (200 \<le> status \<and> status \<le> 299) \<longrightarrow>
        route_rag loads m (Response status body) query defaults = Inr defaults)
   \<and> (llm_content loads resp = Inl e \<longrightarrow> route_rag loads m resp query defaults = Inr defaults)
   \<and> (llm_content loads resp = Inr content \<and> json_obj_from_text loads content m = Inr v
        \<and> (\<forall>obj. v \<noteq> JObj obj) \<longrightarrow>
        route_rag loads m resp query defaults = Inr defaults)
   \<and> (strip query \<noteq> [] \<and> llm_content loads resp = Inr content
        \<and> json_obj_from_text loads content m = Inl e' \<longrightarrow>
        route_rag loads m resp query defaults = Inl e')
   \<and> route_rag json_loads 100000
        (Response 200 (chat_body (''{"use_web": '' @ replicate 4301 (CHR ''1'') @ ''}'')))
        ''news today'' defaults = Inl ValueError\<close>
proof (intro conjI impI)
  show "route_rag loads m RequestFailed query defaults = Inr defaults"
    by (rule route_llm_failed [OF llm_request_failed])
next
  assume "\<not> (200 \<le> status \<and> status \<le> 299)"
  then show "route_rag loads m (Response status body) query defaults = Inr defaults"
    by (rule route_llm_failed [OF llm_bad_status])
next
  assume "llm_content loads resp = Inl e"
  then show "route_rag loads m resp query defaults = Inr defaults"
    by (rule route_llm_failed)
next
  assume a: "llm_content loads resp = Inr content \<and> json_obj_from_text loads content m = Inr v
        \<and> (\<forall>obj. v \<noteq> JObj obj)"
  show "route_rag loads m resp query defaults = Inr defaults"
    by (rule route_no_object [of loads resp content m v]) (use a in blast)+
next
  assume a: "strip query \<noteq> [] \<and> llm_content loads resp = Inr content
        \<and> json_obj_from_text loads content m = Inl e'"
  show "route_rag loads m resp query defaults = Inl e'"
    by (rule route_raised [of query loads resp content m e']) (use a in blast)+
next
  show \<open>route_rag json_loads 100000
        (Response 200 (chat_body (''{"use_web": '' @ replicate 4301 (CHR ''1'') @ ''}'')))
        ''news today'' defaults = Inl ValueError\<close>
    by (rule route_long)
qed

lemma content_plain: \<open>llm_content json_loads (Response 200 (chat_body ''Use the docs.'')) = Inr ''Use the docs.''\<close>
  by code_simp

lemma obj_plain: \<open>json_obj_from_text json_loads ''Use the docs.'' 4096 = Inr JNull\<close>
  by code_simp

lemma content_arr: \<open>llm_content json_loads (Response 200 (chat_body ''{"use_web": tru'')) = Inr ''{"use_web": tru''\<close>
  by code_simp

lemma obj_arr: \<open>json_obj_from_text json_loads ''{"use_web": tru'' 4096 = Inr JNull\<close>
  by code_simp

theorem C2_route_fallback_witness:
  \<open>route_rag json_loads 4096 RequestFailed ''news today''
      [(''use_docs'', JBool True), (''doc_query'', JStr ''news'')]
     = Inr [(''use_docs'', JBool True), (''doc_query'', JStr ''news'')]
   \<and> route_rag json_loads 4096 (Response 404 ''not found'') ''news today''
      [(''use_docs'', JBool True), (''doc_query'', JStr ''news'')]
     = Inr [(''use_docs'', JBool True), (''doc_query'', JStr ''news'')]
   \<and> route_rag json_loads 4096 (Response 200 ''<html>busy</html>'') ''news today''
      [(''use_docs'', JBool True), (''doc_query'', JStr ''news'')]
     = Inr [(''use_docs'', JBool True), (''doc_query'', JStr ''news'')]
   \<and> route_rag json_loads 4096 (Response 200 (chat_body ''Use the docs.'')) ''news today''
      [(''use_docs'', JBool True), (''doc_query'', JStr ''news'')]
     = Inr [(''use_docs'', JBool True), (''doc_query'', JStr ''news'')]
   \<and> route_rag json_loads 4096 (Response 200 (chat_body ''{"use_web": tru'')) ''news today''
      [(''use_docs'', JBool True), (''doc_query'', JStr ''news'')]
     = Inr [(''use_docs'', JBool True), (''doc_query'', JStr ''news'')]
   \<and> route_rag json_loads 100000
      (Response 200 (chat_body (''{"use_web": '' @ replicate 4301 (CHR ''1'') @ ''}'')))
      ''news today'' [(''use_docs'', JBool True), (''doc_query'', JStr ''news'')]
     = Inl ValueError\<close>
proof (intro conjI)
  let ?d = "[(''use_docs'', JBool True), (''doc_query'', JStr ''news'')]"
  show "route_rag json_loads 4096 RequestFailed ''news today'' ?d = Inr ?d"
    by (rule C2_route_fallback [THEN conjunct1])
  have s: "\<not> (200 \<le> (404::nat) \<and> (404::nat) \<le> 299)" by simp
  show "route_rag json_loads 4096 (Response 404 ''not found'') ''news today'' ?d = Inr ?d"
    by (rule C2_route_fallback [THEN conjunct2, THEN conjunct1, rule_format, OF s])
  show "route_rag json_loads 4096 (Response 200 ''<html>busy</html>'') ''news today'' ?d = Inr ?d"
    by (rule C2_route_fallback [THEN conjunct2, THEN conjunct2, THEN conjunct1, rule_format,
          OF content_bad_body])
  have n: "\<forall>obj. JNull \<noteq> JObj obj" by simp
  show "route_rag json_loads 4096 (Response 200 (chat_body ''Use the docs.'')) ''news today'' ?d = Inr ?d"
    by (rule C2_route_fallback [THEN conjunct2, THEN conjunct2, THEN conjunct2, THEN conjunct1,
          rule_format, OF conjI [OF content_plain conjI [OF obj_plain n]]])
  show \<open>route_rag json_loads 4096 (Response 200 (chat_body ''{"use_web": tru'')) ''news today'' ?d = Inr ?d\<close>
    by (rule C2_route_fallback [THEN conjunct2, THEN conjunct2, THEN conjunct2, THEN conjunct1,
          rule_format, OF conjI [OF content_arr conjI [OF obj_arr n]]])
  show \<open>route_rag json_loads 100000
      (Response 200 (chat_body (''{"use_web": '' @ replicate 4301 (CHR ''1'') @ ''}'')))
      ''news today'' ?d = Inl ValueError\<close>
    by (rule C2_route_fallback [THEN conjunct2, THEN conjunct2, THEN conjunct2, THEN conjunct2,
          THEN conjunct1, rule_format,
          OF conjI [OF strip_news_today conjI [OF content_long obj_long' [OF digits_4301 cap_4301]]]])
qed

section \<open>The route advisor's merge, field by field\<close>

text \<open>
  C6 (as amended). For every defaults dict and every JSON object extracted from the
  response to a non-blank query, \<^verbatim>\<open>route_rag\<close> returns a decision in which: a boolean
  key (\<^verbatim>\<open>use_docs\<close>, \<^verbatim>\<open>use_web\<close>, \<^verbatim>\<open>use_kiwix\<close>) is overridden only by a JSON
  boolean, every other value (the string \<^verbatim>\<open>"true"\<close>, a number, \<^verbatim>\<open>null\<close>, a missing
  key) leaves the default; a string key (\<^verbatim>\<open>doc_group\<close>, \<^verbatim>\<open>doc_source\<close>,
  \<^verbatim>\<open>doc_query\<close>, \<^verbatim>\<open>web_query\<close>, \<^verbatim>\<open>kiwix_query\<close>) is set to the stripped string
  when the value is a string (to \<^verbatim>\<open>None\<close> when it is blank), is set to \<^verbatim>\<open>None\<close>
  when the value is \<^verbatim>\<open>null\<close> or the key is missing from the object, and keeps the
  default when the value has any other type; every other key of the defaults is
  unchanged and no key of the object is copied. No field rejects the rest of the
  decision.
\<close>

theorem C6_route_merge:
  assumes "strip query \<noteq> []"
    and "llm_content loads resp = Inr content"
    and "json_obj_from_text loads content m = Inr (JObj obj)"
  shows "\<exists>out. route_rag loads m resp query defaults = Inr out
       \<and> (\<forall>k \<in> set bool_keys.
            map_of out k =
              (case dict_get obj k of JBool b \<Rightarrow> Some (JBool b) | _ \<Rightarrow> map_of defaults k))
       \<and> (\<forall>k \<in> set str_keys.
            map_of out k =
              (case dict_get obj k of
                 JStr val \<Rightarrow> Some (if strip val \<noteq> [] then JStr (strip val) else JNull)
               | JNull \<Rightarrow> Some JNull
               | _ \<Rightarrow> map_of defaults k))
       \<and> (\<forall>k. k \<notin> set bool_keys \<and> k \<notin> set str_keys \<longrightarrow>
            map_of out k = map_of defaults k)"
proof (intro exI conjI)
  show "route_rag loads m resp query defaults = Inr (route_merge obj defaults)"
    by (rule route_merged [OF assms])
qed (simp_all add: route_merge_bool_key route_merge_str_key route_merge_other_key)

lemma content_sure:
  \<open>llm_content json_loads (Response 200 (chat_body
      ''Sure! {"use_web": true, "use_docs": "true", "doc_query": "  dogs ", "web_query": 5, "extra": 1} done''))
   = Inr ''Sure! {"use_web": true, "use_docs": "true", "doc_query": "  dogs ", "web_query": 5, "extra": 1} done''\<close>
  by code_simp

lemma obj_sure:
  \<open>json_obj_from_text json_loads
      ''Sure! {"use_web": true, "use_docs": "true", "doc_query": "  dogs ", "web_query": 5, "extra": 1} done'' 4096
   = Inr (JObj [(''use_web'', JBool True), (''use_docs'', JStr ''true''), (''doc_query'', JStr ''  dogs ''),
           (''web_query'', JInt 5), (''extra'', JInt 1)])\<close>
  by code_simp

lemma strip_news: "strip ''news'' \<noteq> []"
  by code_simp

lemma strip_dogs: "strip ''  dogs '' = ''dogs''"
  by code_simp

theorem C6_route_merge_witness:
  \<open>\<exists>out. route_rag json_loads 4096 (Response 200 (chat_body
      ''Sure! {"use_web": true, "use_docs": "true", "doc_query": "  dogs ", "web_query": 5, "extra": 1} done''))
      ''news''
      [(''use_web'', JBool False), (''use_docs'', JBool False), (''doc_query'', JStr ''cats''),
       (''web_query'', JStr ''w''), (''extra'', JInt 0)] = Inr out
   \<and> map_of out ''use_web'' = Some (JBool True)
   \<and> map_of out ''use_docs'' = Some (JBool False)
   \<and> map_of out ''doc_query'' = Some (JStr ''dogs'')
   \<and> map_of out ''web_query'' = Some (JStr ''w'')
   \<and> map_of out ''extra'' = Some (JInt 0)\<close>
proof -
  let ?d = "[(''use_web'', JBool False), (''use_docs'', JBool False), (''doc_query'', JStr ''cats''),
       (''web_query'', JStr ''w''), (''extra'', JInt 0)]"
  from C6_route_merge [OF strip_news content_sure obj_sure, of ?d]
  obtain out where r: \<open>route_rag json_loads 4096 (Response 200 (chat_body
      ''Sure! {"use_web": true, "use_docs": "true", "doc_query": "  dogs ", "web_query": 5, "extra": 1} done''))
      ''news'' ?d = Inr out\<close>
    and w: "(\<forall>k \<in> set bool_keys.
            map_of out k =
              (case dict_get [(''use_web'', JBool True), (''use_docs'', JStr ''true''),
                    (''doc_query'', JStr ''  dogs ''), (''web_query'', JInt 5), (''extra'', JInt 1)] k
               of JBool b \<Rightarrow> Some (JBool b) | _ \<Rightarrow> map_of ?d k))
       \<and> (\<forall>k \<in> set str_keys.
            map_of out k =
              (case dict_get [(''use_web'', JBool True), (''use_docs'', JStr ''true''),
                    (''doc_query'', JStr ''  dogs ''), (''web_query'', JInt 5), (''extra'', JInt 1)] k of
                 JStr val \<Rightarrow> Some (if strip val \<noteq> [] then JStr (strip val) else JNull)
               | JNull \<Rightarrow> Some JNull
               | _ \<Rightarrow> map_of ?d k))
       \<and> (\<forall>k. k \<notin> set bool_keys \<and> k \<notin> set str_keys \<longrightarrow>
            map_of out k = map_of ?d k)"
    by blast
  have b: "''use_web'' \<in> set bool_keys" "''use_docs'' \<in> set bool_keys"
    by (simp_all add: bool_keys_def)
  have s: "''doc_query'' \<in> set str_keys" "''web_query'' \<in> set str_keys"
    by (simp_all add: str_keys_def)
  have o: "''extra'' \<notin> set bool_keys \<and> ''extra'' \<notin> set str_keys"
    by (simp add: bool_keys_def str_keys_def)
  have "map_of out ''use_web'' = Some (JBool True)
   \<and> map_of out ''use_docs'' = Some (JBool False)
   \<and> map_of out ''doc_query'' = Some (JStr ''dogs'')
   \<and> map_of out ''web_query'' = Some (JStr ''w'')
   \<and> map_of out ''extra'' = Some (JInt 0)"
    using w [THEN conjunct1, rule_format, OF b(1)] w [THEN conjunct1, rule_format, OF b(2)]
      w [THEN conjunct2, THEN conjunct1, rule_format, OF s(1)]
      w [THEN conjunct2, THEN conjunct1, rule_format, OF s(2)]
      w [THEN conjunct2, THEN conjunct2, rule_format, OF o]
    by (simp add: dict_get_def strip_dogs)
  then show ?thesis using r by blast
qed

lemma content_empty_obj: \<open>llm_content json_loads (Response 200 (chat_body ''{}'')) = Inr ''{}''\<close>
  by code_simp

lemma obj_empty_obj: \<open>json_obj_from_text json_loads ''{}'' 4096 = Inr (JObj [])\<close>
  by code_simp

lemma route_empty_obj:
  \<open>route_rag json_loads 4096 (Response 200 (chat_body ''{}'')) ''news''
       [(''use_web'', JBool False), (''doc_query'', JStr ''cats'')]
     = Inr [(''use_web'', JBool False), (''doc_query'', JNull), (''doc_group'', JNull),
        (''doc_source'', JNull), (''web_query'', JNull), (''kiwix_query'', JNull)]\<close>
proof -
  have "route_rag json_loads 4096 (Response 200 (chat_body ''{}'')) ''news''
       [(''use_web'', JBool False), (''doc_query'', JStr ''cats'')]
     = Inr (route_merge [] [(''use_web'', JBool False), (''doc_query'', JStr ''cats'')])"
    by (rule route_merged [OF strip_news content_empty_obj obj_empty_obj])
  also have "route_merge [] [(''use_web'', JBool False), (''doc_query'', JStr ''cats'')]
      = [(''use_web'', JBool False), (''doc_query'', JNull), (''doc_group'', JNull),
        (''doc_source'', JNull), (''web_query'', JNull), (''kiwix_query'', JNull)]"
    by code_simp
  finally show ?thesis .
qed

text \<open>
  The claim as stated fails: the object \<^verbatim>\<open>{}\<close> has no field at all, yet the decision
  differs from the defaults, whose \<^verbatim>\<open>doc_query\<close> is replaced by \<^verbatim>\<open>None\<close>.
\<close>

theorem C6_absent_field_counterexample:
  \<open>json_obj_from_text json_loads ''{}'' 4096 = Inr (JObj [])
   \<and> route_rag json_loads 4096 (Response 200 (chat_body ''{}'')) ''news''
       [(''use_web'', JBool False), (''doc_query'', JStr ''cats'')]
     = Inr [(''use_web'', JBool False), (''doc_query'', JNull), (''doc_group'', JNull),
        (''doc_source'', JNull), (''web_query'', JNull), (''kiwix_query'', JNull)]
   \<and> route_rag json_loads 4096 (Response 200 (chat_body ''{}'')) ''news''
       [(''use_web'', JBool False), (''doc_query'', JStr ''cats'')]
     \<noteq> Inr [(''use_web'', JBool False), (''doc_query'', JStr ''cats'')]\<close>
  using obj_empty_obj route_empty_obj by simp

section \<open>The caller's defaults are not mutated\<close>

text \<open>
  C10. Whatever \<^verbatim>\<open>route_rag\<close> does, the store keeps every object it had, the
  caller's defaults among them, unchanged. On every return path (blank query, failed
  LLM call, no object, merge) it returns the address of a newly allocated dict, which
  is not the address of the defaults and holds the decision. When the extraction
  raises, nothing has been allocated or written: the store is the one before the call.
\<close>

theorem C10_route_rag_fresh_copy:
  assumes "defaults < length h"
  shows "snd (route_rag_st loads m resp query h defaults) ! defaults = h ! defaults
       \<and> take (length h) (snd (route_rag_st loads m resp query h defaults)) = h
       \<and> (case route_rag loads m resp query (h ! defaults) of
            Inr decision \<Rightarrow>
              fst (route_rag_st loads m resp query h defaults) = Inr (length h)
              \<and> length h \<noteq> defaults
              \<and> snd (route_rag_st loads m resp query h defaults) ! length h = decision
          | Inl e \<Rightarrow>
              fst (route_rag_st loads m resp query h defaults) = Inl e
              \<and> snd (route_rag_st loads m resp query h defaults) = h)"
  using assms
  by (cases "route_rag loads m resp query (h ! defaults)")
     (simp_all add: route_rag_st_eq nth_append)

theorem C10_route_rag_fresh_copy_witness:
  \<open>fst (route_rag_st json_loads 4096 (Response 200 (chat_body ''{}'')) ''news''
          [[(''use_web'', JBool False), (''doc_query'', JStr ''cats'')]] 0) = Inr 1
   \<and> snd (route_rag_st json_loads 4096 (Response 200 (chat_body ''{}'')) ''news''
          [[(''use_web'', JBool False), (''doc_query'', JStr ''cats'')]] 0) ! 0
       = [(''use_web'', JBool False), (''doc_query'', JStr ''cats'')]
   \<and> snd (route_rag_st json_loads 4096 (Response 200 (chat_body ''{}'')) ''news''
          [[(''use_web'', JBool False), (''doc_query'', JStr ''cats'')]] 0) ! 1
       = [(''use_web'', JBool False), (''doc_query'', JNull), (''doc_group'', JNull),
          (''doc_source'', JNull), (''web_query'', JNull), (''kiwix_query'', JNull)]\<close>
proof -
  let ?h = "[[(''use_web'', JBool False), (''doc_query'', JStr ''cats'')]]"
  let ?r = "route_rag_st json_loads 4096 (Response 200 (chat_body ''{}'')) ''news'' ?h 0"
  have l: "(0::nat) < length ?h"
    by simp
  have d: "route_rag json_loads 4096 (Response 200 (chat_body ''{}'')) ''news'' (?h ! 0)
      = Inr [(''use_web'', JBool False), (''doc_query'', JNull), (''doc_group'', JNull),
          (''doc_source'', JNull), (''web_query'', JNull), (''kiwix_query'', JNull)]"
    using route_empty_obj by simp
  note w = C10_route_rag_fresh_copy [OF l, of json_loads 4096
      "Response 200 (chat_body ''{}'')" "''news''", unfolded d]
  have z: "snd ?r ! 0 = [(''use_web'', JBool False), (''doc_query'', JStr ''cats'')]"
    using w [THEN conjunct1] by simp
  have f: "fst ?r = Inr 1"
    using w [THEN conjunct2, THEN conjunct2] by simp
  have o: "snd ?r ! 1 = [(''use_web'', JBool False), (''doc_query'', JNull),
          (''doc_group'', JNull), (''doc_source'', JNull), (''web_query'', JNull),
          (''kiwix_query'', JNull)]"
    using w [THEN conjunct2, THEN conjunct2] by simp
  show ?thesis using f z o by (intro conjI)
qed

section \<open>The extractors against the specification's scan\<close>

lemma find_map: "find P (map f xs) = map_option f (find (P \<circ> f) xs)"
  by (induction xs) auto

lemma upt_shift: "[Suc 1..<Suc (Suc n)] = map Suc [1..<Suc n]"
  using map_Suc_upt [of 1 "Suc n"] by simp

lemma scan_braces_find:
  "1 \<le> d \<Longrightarrow>
   scan_braces d i e n cs =
     map_option (\<lambda>k. n + k)
       (find (\<lambda>k. depth_from (CHR ''{'') (CHR ''}'') (d, i, e) (take k cs) = 0)
          [1..<Suc (length cs)])"
proof (induction cs arbitrary: d i e n)
  case Nil
  then show ?case by simp
next
  case (Cons c cs)
  obtain d' i' e' where st: "lex_step (CHR ''{'') (CHR ''}'') (d, i, e) c = (d', i', e')"
    by (cases "lex_step (CHR ''{'') (CHR ''}'') (d, i, e) c") auto
  have upt: "[Suc 0..<Suc (Suc (length cs))] = Suc 0 # map Suc [Suc 0..<Suc (length cs)]"
    using upt_shift [of "length cs"] by (simp add: upt_rec)
  have tail: "find (\<lambda>k. depth_from (CHR ''{'') (CHR ''}'') (d, i, e) (take k (c # cs)) = 0)
          (map Suc [Suc 0..<Suc (length cs)])
      = map_option Suc (find (\<lambda>k. depth_from (CHR ''{'') (CHR ''}'') (d', i', e') (take k cs) = 0)
          [Suc 0..<Suc (length cs)])"
    by (simp add: find_map comp_def depth_from_def st del: lex_step.simps)
  have one: "depth_from (CHR ''{'') (CHR ''}'') (d, i, e) (take (Suc 0) (c # cs)) = d'"
    by (simp add: depth_from_def st del: lex_step.simps)
  show ?case
  proof (cases "d' = 0")
    case True
    then have "scan_braces d i e n (c # cs) = Some (Suc n)"
      using st Cons.prems by (auto split: if_splits)
    then show ?thesis using True one by (simp add: upt del: upt_Suc)
  next
    case False
    have d': "1 \<le> d'" using st Cons.prems False by (auto split: if_splits)
    have "scan_braces d i e n (c # cs) = scan_braces d' i' e' (Suc n) cs"
      using st False by (auto split: if_splits)
    then show ?thesis
      using False one tail Cons.IH [OF d', of i' e' "Suc n"]
      by (simp add: upt option.map_comp comp_def del: upt_Suc)
  qed
qed


lemma scan_braces_first:
  "scan_braces 0 False False 0 (CHR ''{'' # cs) =
     find (\<lambda>n. depth_after (CHR ''{'') (CHR ''}'') (take n (CHR ''{'' # cs)) = 0)
       [1..<Suc (length (CHR ''{'' # cs))]"
proof -
  have upt: "[Suc 0..<Suc (Suc (length cs))] = Suc 0 # map Suc [Suc 0..<Suc (length cs)]"
    using upt_shift [of "length cs"] by (simp add: upt_rec)
  have a: "scan_braces 0 False False 0 (CHR ''{'' # cs) = scan_braces 1 False False (Suc 0) cs"
    by simp
  have b: "scan_braces 1 False False (Suc 0) cs =
     map_option Suc
       (find (\<lambda>k. depth_from (CHR ''{'') (CHR ''}'') (1, False, False) (take k cs) = 0)
          [Suc 0..<Suc (length cs)])"
    using scan_braces_find [of 1 False False "Suc 0" cs] by (simp add: comp_def)
  have c: "depth_after (CHR ''{'') (CHR ''}'') (CHR ''{'' # p) =
           depth_from (CHR ''{'') (CHR ''}'') (1, False, False) p" for p
    by (simp add: depth_after_def depth_from_def)
  have d: "depth_after (CHR ''{'') (CHR ''}'') (take (Suc 0) (CHR ''{'' # cs)) \<noteq> 0"
    by (simp add: depth_after_def depth_from_def)
  show ?thesis
    unfolding a b using d by (simp add: upt find_map comp_def c del: upt_Suc)
qed

lemma json_obj_from_text_span:
  "json_obj_from_text loads s m =
     (if s = [] \<or> int (length s) > m then Inr JNull
      else (case span_from_first_open (CHR ''{'') (CHR ''}'') s of
              None \<Rightarrow> Inr JNull
            | Some sp \<Rightarrow>
                (case loads sp of
                   Inl e \<Rightarrow> if e = JSONDecodeError then Inr JNull else Inl e
                 | Inr v \<Rightarrow> Inr v)))"
proof (cases "s = [] \<or> int (length s) > m")
  case True
  then show ?thesis by (auto simp: json_obj_from_text_def)
next
  case False
  define rest where "rest = dropWhile (\<lambda>c. c \<noteq> CHR ''{'') s"
  define i where "i = length (takeWhile (\<lambda>c. c \<noteq> CHR ''{'') s)"
  have dr: "drop i s = rest" by (simp add: rest_def i_def dropWhile_eq_drop)
  have len: "length rest = length s - i" using dr by (metis length_drop)
  have stop: "nat (min (int (length s)) (int i + m)) = length s" using False by auto
  have tk: "take (length s - i) rest = rest" using len by simp
  show ?thesis
  proof (cases rest)
    case Nil
    then have "i = length s" using len
      by (metis i_def length_takeWhile_le diff_is_0_eq le_antisym list.size(3))
    then show ?thesis using False Nil
      by (simp add: json_obj_from_text_def i_def [symmetric] span_from_first_open_def
          balanced_prefix_def rest_def [symmetric])
  next
    case (Cons c cs)
    then have c: "c = CHR ''{''"
      using hd_dropWhile [of "\<lambda>c. c \<noteq> CHR ''{''" s] by (simp add: rest_def [symmetric])
    have ne: "i \<noteq> length s" using len Cons by auto
    have A: "json_obj_from_text loads s m =
        (case scan_braces 0 False False 0 rest of
           None \<Rightarrow> Inr JNull
         | Some n \<Rightarrow>
             (case loads (take n rest) of
                Inl e \<Rightarrow> if e = JSONDecodeError then Inr JNull else Inl e
              | Inr v \<Rightarrow> Inr v))"
      using False ne
      by (simp add: json_obj_from_text_def i_def [symmetric] Let_def stop dr tk
          split: option.splits)
    have B: "(case span_from_first_open (CHR ''{'') (CHR ''}'') s of
              None \<Rightarrow> Inr JNull
            | Some sp \<Rightarrow>
                (case loads sp of
                   Inl e \<Rightarrow> if e = JSONDecodeError then Inr JNull else Inl e
                 | Inr v \<Rightarrow> Inr v)) =
        (case find (\<lambda>n. depth_after (CHR ''{'') (CHR ''}'') (take n rest) = 0)
                [1..<Suc (length rest)] of
           None \<Rightarrow> Inr JNull
         | Some n \<Rightarrow>
             (case loads (take n rest) of
                Inl e \<Rightarrow> if e = JSONDecodeError then Inr JNull else Inl e
              | Inr v \<Rightarrow> Inr v))"
      by (simp add: span_from_first_open_def balanced_prefix_def rest_def [symmetric]
          split: option.splits del: upt_Suc)
    have C: "scan_braces 0 False False 0 rest =
        find (\<lambda>n. depth_after (CHR ''{'') (CHR ''}'') (take n rest) = 0) [1..<Suc (length rest)]"
      unfolding Cons c by (rule scan_braces_first)
    show ?thesis using False unfolding A B C by simp
  qed
qed

lemma find_from_eq:
  "find_from c xs n =
     (if c \<in> set xs then int (n + length (takeWhile (\<lambda>x. x \<noteq> c) xs)) else -1)"
  by (induction xs arbitrary: n) auto

lemma find_char_eq:
  "find_char s c = (if c \<in> set s then int (length (takeWhile (\<lambda>x. x \<noteq> c) s)) else -1)"
  by (simp add: find_char_def find_from_eq)

lemma rfind_char_eq:
  "rfind_char s c =
     (if c \<in> set s then int (length s) - 1 - int (length (takeWhile (\<lambda>x. x \<noteq> c) (rev s)))
      else -1)"
  by (simp add: rfind_char_def find_from_eq Let_def)

lemma takeWhile_lt_length:
  "c \<in> set xs \<Longrightarrow> length (takeWhile (\<lambda>x. x \<noteq> c) xs) < length xs"
  by (induction xs) auto

lemma take_last_part:
  "b < length s \<Longrightarrow> take (length s - b) s = rev (drop b (rev s))"
  by (simp add: rev_drop)

lemma dropWhile_take_ge:
  "length (takeWhile P xs) < n \<Longrightarrow> dropWhile P (take n xs) = drop (length (takeWhile P xs)) (take n xs)"
proof (induction xs arbitrary: n)
  case Nil
  then show ?case by simp
next
  case (Cons x xs)
  then show ?case by (cases n) (auto split: if_splits)
qed

lemma dropWhile_take_le:
  "n \<le> length (takeWhile P xs) \<Longrightarrow> dropWhile P (take n xs) = []"
proof (induction xs arbitrary: n)
  case Nil
  then show ?case by simp
next
  case (Cons x xs)
  then show ?case by (cases n) (auto split: if_splits)
qed


lemma first_to_last_no_open: "opn \<notin> set s \<Longrightarrow> first_to_last opn cls s = []"
proof -
  assume a: "opn \<notin> set s"
  have "set (rev (dropWhile (\<lambda>c. c \<noteq> cls) (rev s))) \<subseteq> set s"
    using set_dropWhileD by fastforce
  then show ?thesis using a by (auto simp: first_to_last_def dropWhile_eq_Nil_conv)
qed

lemma first_to_last_no_close: "cls \<notin> set s \<Longrightarrow> first_to_last opn cls s = []"
proof -
  assume a: "cls \<notin> set s"
  have d: "dropWhile (\<lambda>c. c \<noteq> cls) (rev s) = []"
    unfolding dropWhile_eq_Nil_conv using a by auto
  show ?thesis unfolding first_to_last_def d by simp
qed

lemma first_to_last_both:
  assumes o: "opn \<in> set s" and c: "cls \<in> set s" and ne: "opn \<noteq> cls"
  defines "a \<equiv> length (takeWhile (\<lambda>x. x \<noteq> opn) s)"
    and "b \<equiv> length (takeWhile (\<lambda>x. x \<noteq> cls) (rev s))"
  shows "first_to_last opn cls s =
     (if length s - b \<le> Suc a then [] else drop a (take (length s - b) s))"
proof -
  have b: "b < length s" using takeWhile_lt_length [of cls "rev s"] c by (simp add: b_def)
  have a: "a < length s" using takeWhile_lt_length [of opn s] o by (simp add: a_def)
  have t: "rev (dropWhile (\<lambda>x. x \<noteq> cls) (rev s)) = take (length s - b) s"
    using b by (simp add: dropWhile_eq_drop b_def [symmetric] rev_drop)
  have sa: "s ! a = opn"
    using nth_length_takeWhile [of "\<lambda>x. x \<noteq> opn" s] a by (simp add: a_def)
  have "rev s ! b = cls"
    using nth_length_takeWhile [of "\<lambda>x. x \<noteq> cls" "rev s"] b by (simp add: b_def)
  then have sb: "s ! (length s - Suc b) = cls" using b by (simp add: rev_nth)
  have neq: "length s - b \<noteq> Suc a"
  proof
    assume "length s - b = Suc a"
    then have "length s - Suc b = a" by simp
    then show False using sa sb ne by simp
  qed
  show ?thesis
  proof (cases "length s - b \<le> Suc a")
    case True
    then have "length s - b \<le> a" using neq by simp
    then show ?thesis using True
      by (simp add: first_to_last_def t dropWhile_take_le a_def)
  next
    case False
    then have "a < length s - b" by simp
    then show ?thesis using False
      by (simp add: first_to_last_def t dropWhile_take_ge [of "\<lambda>x. x \<noteq> opn"] a_def)
  qed
qed

lemma extract_json_array_spec:
  "extract_json_array loads text =
     (let sp = first_to_last (CHR ''['') (CHR '']'') (strip text) in
      if sp = [] then None
      else (case loads sp of
              Inl e \<Rightarrow> None
            | Inr val \<Rightarrow> (case val of JArr xs \<Rightarrow> Some xs | _ \<Rightarrow> None)))"
proof -
  define s where "s = strip text"
  show ?thesis
  proof (cases "CHR ''['' \<in> set s \<and> CHR '']'' \<in> set s")
    case False
    then have "first_to_last (CHR ''['') (CHR '']'') s = []"
      using first_to_last_no_open first_to_last_no_close by blast
    moreover have "find_char s (CHR ''['') < 0 \<or> rfind_char s (CHR '']'') < 0"
      using False by (auto simp: find_char_eq rfind_char_eq)
    ultimately show ?thesis
      by (auto simp: extract_json_array_def s_def [symmetric] Let_def)
  next
    case True
    define a where "a = length (takeWhile (\<lambda>x. x \<noteq> CHR ''['') s)"
    define b where "b = length (takeWhile (\<lambda>x. x \<noteq> CHR '']'') (rev s))"
    have ne: "s \<noteq> []" using True by auto
    have b: "b < length s" using takeWhile_lt_length [of "CHR '']''" "rev s"] True by (simp add: b_def)
    have st: "find_char s (CHR ''['') = int a" using True by (simp add: find_char_eq a_def)
    have en: "rfind_char s (CHR '']'') = int (length s) - 1 - int b"
      using True by (simp add: rfind_char_eq b_def)
    have e1: "nat (int (length s) - 1 - int b + 1) = length s - b" using b by simp
    have cond: "(int a < 0 \<or> int (length s) - 1 - int b < 0 \<or> int (length s) - 1 - int b \<le> int a)
        = (length s - b \<le> Suc a)" using b by auto
    have f: "first_to_last (CHR ''['') (CHR '']'') s =
       (if length s - b \<le> Suc a then [] else drop a (take (length s - b) s))"
      using first_to_last_both [of "CHR ''[''" s "CHR '']''"] True by (simp add: a_def b_def)
    have nonempty: "\<not> length s - b \<le> Suc a \<Longrightarrow> drop a (take (length s - b) s) \<noteq> []"
      using b by simp
    have E: "extract_json_array loads text =
       (if find_char s (CHR ''['') < 0 \<or> rfind_char s (CHR '']'') < 0
           \<or> rfind_char s (CHR '']'') \<le> find_char s (CHR ''['') then None
        else (case loads (drop (nat (find_char s (CHR ''[''))) (take (nat (rfind_char s (CHR '']'') + 1)) s)) of
                Inl e \<Rightarrow> None
              | Inr val \<Rightarrow> (case val of JArr xs \<Rightarrow> Some xs | _ \<Rightarrow> None)))"
      using ne by (simp add: extract_json_array_def s_def [symmetric] Let_def)
    note E' = E [unfolded st en cond e1 nat_int]
    show ?thesis
    proof (cases "length s - b \<le> Suc a")
      case True
      then show ?thesis unfolding E' by (simp add: s_def [symmetric] f)
    next
      case False
      then show ?thesis unfolding E' using nonempty [OF False]
        by (simp add: s_def [symmetric] f)
    qed
  qed
qed

text \<open>
  C4 (as amended). For every input text the object extractor of the route advisor
  looks at one span only: the shortest span that begins at the first \<^verbatim>\<open>{\<close> of the
  text, whether or not that brace stands inside a quoted string, and at whose end the
  brace depth, counted outside string literals and past escaped characters, is back to
  zero. It returns the parse of that span when the span parses; it returns \<^verbatim>\<open>None\<close>
  when the text is empty or longer than the size cap, when there is no such span, and
  when the parser rejects the span as malformed JSON, without scanning past it. The
  array extractor of the reranker does no balanced scan: it strips the text and parses
  everything from the first \<^verbatim>\<open>[\<close> to the last \<^verbatim>\<open>]\<close>, returning the value only when
  it is a list, and \<^verbatim>\<open>None\<close> when that text is empty or the parser raises.
\<close>

theorem C4_extractors:
  "(s = [] \<or> int (length s) > m \<longrightarrow> json_obj_from_text loads s m = Inr JNull)
   \<and> (span_from_first_open (CHR ''{'') (CHR ''}'') s = None \<longrightarrow>
        json_obj_from_text loads s m = Inr JNull)
   \<and> (s \<noteq> [] \<and> int (length s) \<le> m
        \<and> span_from_first_open (CHR ''{'') (CHR ''}'') s = Some sp \<and> loads sp = Inr v \<longrightarrow>
        json_obj_from_text loads s m = Inr v)
   \<and> (span_from_first_open (CHR ''{'') (CHR ''}'') s = Some sp \<and> loads sp = Inl JSONDecodeError \<longrightarrow>
        json_obj_from_text loads s m = Inr JNull)
   \<and> extract_json_array loads t =
     (let sp = first_to_last (CHR ''['') (CHR '']'') (strip t) in
      if sp = [] then None
      else (case loads sp of
              Inl e \<Rightarrow> None
            | Inr val \<Rightarrow> (case val of JArr xs \<Rightarrow> Some xs | _ \<Rightarrow> None)))"
proof (intro conjI impI)
  assume "s = [] \<or> int (length s) > m"
  then show "json_obj_from_text loads s m = Inr JNull"
    by (simp add: json_obj_from_text_span)
next
  assume "span_from_first_open (CHR ''{'') (CHR ''}'') s = None"
  then show "json_obj_from_text loads s m = Inr JNull"
    by (simp add: json_obj_from_text_span)
next
  assume "s \<noteq> [] \<and> int (length s) \<le> m
        \<and> span_from_first_open (CHR ''{'') (CHR ''}'') s = Some sp \<and> loads sp = Inr v"
  then show "json_obj_from_text loads s m = Inr v"
    by (simp add: json_obj_from_text_span)
next
  assume "span_from_first_open (CHR ''{'') (CHR ''}'') s = Some sp \<and> loads sp = Inl JSONDecodeError"
  then show "json_obj_from_text loads s m = Inr JNull"
    by (simp add: json_obj_from_text_span)
next
  show "extract_json_array loads t =
     (let sp = first_to_last (CHR ''['') (CHR '']'') (strip t) in
      if sp = [] then None
      else (case loads sp of
              Inl e \<Rightarrow> None
            | Inr val \<Rightarrow> (case val of JArr xs \<Rightarrow> Some xs | _ \<Rightarrow> None)))"
    by (rule extract_json_array_spec)
qed

lemma span_later: \<open>span_from_first_open (CHR ''{'') (CHR ''}'') ''a {"k": } then {"k": 1}'' = Some ''{"k": }''\<close>
  by code_simp

lemma loads_bad_span: \<open>json_loads ''{"k": }'' = Inl JSONDecodeError\<close>
  by code_simp

lemma span_good: \<open>span_from_first_open (CHR ''{'') (CHR ''}'') ''ok {"k": [1, "}"]} and {"j": 2}'' = Some ''{"k": [1, "}"]}''\<close>
  by code_simp

lemma loads_good: \<open>json_loads ''{"k": [1, "}"]}'' = Inr (JObj [(''k'', JArr [JInt 1, JStr ''}''])])\<close>
  by code_simp

lemma span_open: \<open>span_from_first_open (CHR ''{'') (CHR ''}'') ''{"k": 1'' = None\<close>
  by code_simp

lemma ftl_two: \<open>first_to_last (CHR ''['') (CHR '']'') (strip '' x [2, 1] and [9] y '') = ''[2, 1] and [9]''\<close>
  by code_simp

lemma loads_two: \<open>json_loads ''[2, 1] and [9]'' = Inl JSONDecodeError\<close>
  by code_simp

theorem C4_extractors_witness:
  \<open>json_obj_from_text json_loads ''a {"k": } then {"k": 1}'' 10 = Inr JNull
   \<and> json_obj_from_text json_loads ''{"k": 1'' 4096 = Inr JNull
   \<and> json_obj_from_text json_loads ''ok {"k": [1, "}"]} and {"j": 2}'' 4096
       = Inr (JObj [(''k'', JArr [JInt 1, JStr ''}''])])
   \<and> json_obj_from_text json_loads ''a {"k": } then {"k": 1}'' 4096 = Inr JNull
   \<and> extract_json_array json_loads '' x [2, 1] and [9] y '' = None\<close>
proof (intro conjI)
  have big: \<open>''a {"k": } then {"k": 1}'' = [] \<or> int (length ''a {"k": } then {"k": 1}'') > 10\<close>
    by simp
  show \<open>json_obj_from_text json_loads ''a {"k": } then {"k": 1}'' 10 = Inr JNull\<close>
    by (rule C4_extractors [THEN conjunct1, rule_format, OF big])
  show \<open>json_obj_from_text json_loads ''{"k": 1'' 4096 = Inr JNull\<close>
    by (rule C4_extractors [THEN conjunct2, THEN conjunct1, rule_format, OF span_open])
  have ok: \<open>''ok {"k": [1, "}"]} and {"j": 2}'' \<noteq> []
      \<and> int (length ''ok {"k": [1, "}"]} and {"j": 2}'') \<le> 4096
      \<and> span_from_first_open (CHR ''{'') (CHR ''}'') ''ok {"k": [1, "}"]} and {"j": 2}''
          = Some ''{"k": [1, "}"]}''
      \<and> json_loads ''{"k": [1, "}"]}'' = Inr (JObj [(''k'', JArr [JInt 1, JStr ''}''])])\<close>
    using span_good loads_good by simp
  show \<open>json_obj_from_text json_loads ''ok {"k": [1, "}"]} and {"j": 2}'' 4096
       = Inr (JObj [(''k'', JArr [JInt 1, JStr ''}''])])\<close>
    by (rule C4_extractors [where loads = json_loads, THEN conjunct2, THEN conjunct2,
          THEN conjunct1, rule_format, OF ok])
  show \<open>json_obj_from_text json_loads ''a {"k": } then {"k": 1}'' 4096 = Inr JNull\<close>
    by (rule C4_extractors [where loads = json_loads, THEN conjunct2, THEN conjunct2,
          THEN conjunct2, THEN conjunct1, rule_format, OF conjI [OF span_later loads_bad_span]])
  show \<open>extract_json_array json_loads '' x [2, 1] and [9] y '' = None\<close>
    unfolding C4_extractors [where loads = json_loads and t = "'' x [2, 1] and [9] y ''",
        THEN conjunct2, THEN conjunct2, THEN conjunct2, THEN conjunct2]
    by (simp add: ftl_two loads_two)
qed

text \<open>
  The claim as stated fails for both extractors. In \<^verbatim>\<open>[1] [2]\<close> the first balanced
  bracket span is \<^verbatim>\<open>[1]\<close>, which parses to a list, but the array extractor parses
  the whole text and returns \<^verbatim>\<open>None\<close>. In \<^verbatim>\<open>The "{" sign, then {"use_web": true}\<close>
  the first opening brace outside a string starts the balanced span
  \<^verbatim>\<open>{"use_web": true}\<close>, which parses, but the object extractor starts at the quoted
  brace, finds no balanced span from there and returns \<^verbatim>\<open>None\<close>.
\<close>

theorem C4_extractors_counterexample:
  \<open>first_balanced_span (CHR ''['') (CHR '']'') ''[1] [2]'' = Some ''[1]''
   \<and> json_loads ''[1]'' = Inr (JArr [JInt 1])
   \<and> spec_extract json_loads (CHR ''['') (CHR '']'') ''[1] [2]'' = JArr [JInt 1]
   \<and> extract_json_array json_loads ''[1] [2]'' = None
   \<and> first_balanced_span (CHR ''{'') (CHR ''}'') ''The "{" sign, then {"use_web": true}''
        = Some ''{"use_web": true}''
   \<and> spec_extract json_loads (CHR ''{'') (CHR ''}'') ''The "{" sign, then {"use_web": true}''
        = JObj [(''use_web'', JBool True)]
   \<and> json_obj_from_text json_loads ''The "{" sign, then {"use_web": true}'' 4096 = Inr JNull\<close>
  by code_simp

end
